theory Spec2Isabelle
  imports Main
begin

section \<open>The word-grid placement engine of App.js\<close>

text \<open>
  The React component \<open>App\<close> keeps its state in hooks and changes it in event
  handlers. Every handler runs to completion on the state of the last render, so a
  handler is a function from the state (and the arguments of the event) to the next
  state. Strings are taken over ASCII, one \<open>char\<close> per code unit; indices and
  coordinates are natural numbers (the code stores only \<open>letterIndex\<close> values, which
  start at 0 and grow by one, and loop counters); the running maximum of the two
  scanning loops starts at \<open>-1\<close> and is an \<open>int\<close>.

  The two effects that recompute \<open>placedWordIds\<close> and \<open>totalLetterCount\<close> from
  the grid and the word list, the sound played when a word is complete, and the
  download of the exported text are outside the model: no handler reads them.
\<close>

subsection \<open>Data\<close>

text \<open>An entry of \<open>enteredWords\<close>: \<open>{ id, text, color }\<close>.\<close>

record word =
  w_id :: string
  w_text :: string
  w_color :: string

text \<open>
  An occupied grid cell:
  \<open>{ letter, wordId, color, sequenceIndex, row, col }\<close>. A cell slot is \<open>null\<close>
  (\<open>None\<close>) or such an object.
\<close>

record cell =
  letter :: string
  wordId :: string
  color :: string
  sequenceIndex :: nat
  row :: nat
  col :: nat

type_synonym coords = "nat \<times> nat"

type_synonym grid = "cell option list list"

text \<open>
  \<open>selectedWordData\<close>: \<open>{ id, text, color, letterIndex, lastPlacedCoords }\<close>, where
  \<open>id\<close>, \<open>text\<close>, \<open>color\<close> and \<open>lastPlacedCoords\<close> may be \<open>null\<close>.
\<close>

record selection =
  sel_id :: "string option"
  sel_text :: "string option"
  sel_color :: "string option"
  letterIndex :: nat
  lastPlacedCoords :: "coords option"

record state =
  currentWord :: string
  enteredWords :: "word list"
  editMode :: "string option"
  editedWordText :: string
  selectedWordData :: selection
  gridCells :: grid
  themeText :: string
  hintText :: string
  nextColorIndex :: nat

datatype error = TypeError

definition WORD_COLORS :: "string list" where
  "WORD_COLORS =
     [''#EF4444'', ''#3B82F6'', ''#10B981'', ''#F59E0B'', ''#8B5CF6'', ''#EC4899'',
      ''#06B6D4'', ''#6B7280'', ''#A855F7'', ''#EAB308'', ''#F43F5E'', ''#22C55E'']"

text \<open>The value every deselection writes.\<close>

definition noSelection :: selection where
  "noSelection =
     \<lparr>sel_id = None, sel_text = None, sel_color = None, letterIndex = 0,
      lastPlacedCoords = None\<rparr>"

text \<open>The state of the first render: no words, an 8 by 6 grid of \<open>null\<close>.\<close>

definition initialState :: state where
  "initialState =
     \<lparr>currentWord = [], enteredWords = [], editMode = None, editedWordText = [],
      selectedWordData = noSelection,
      gridCells = replicate 8 (replicate 6 None),
      themeText = [], hintText = [], nextColorIndex = 0\<rparr>"

subsection \<open>String primitives of the language\<close>

definition isSpace :: "char \<Rightarrow> bool" where
  "isSpace ch = (ch \<in> set [CHR '' '', CHR 0x09, CHR 0x0A, CHR 0x0B, CHR 0x0C, CHR 0x0D])"

text \<open>\<open>String.prototype.trim\<close>: white space removed at both ends.\<close>

definition trim :: "string \<Rightarrow> string" where
  "trim s = rev (dropWhile isSpace (rev (dropWhile isSpace s)))"

text \<open>\<open>String.prototype.charAt\<close>: the empty string outside the string.\<close>

definition charAt :: "string \<Rightarrow> nat \<Rightarrow> string" where
  "charAt s i = (if i < length s then [s ! i] else [])"

definition upperChar :: "char \<Rightarrow> char" where
  "upperChar ch =
     (case map_of (zip ''abcdefghijklmnopqrstuvwxyz'' ''ABCDEFGHIJKLMNOPQRSTUVWXYZ'') ch of
        Some u \<Rightarrow> u
      | None \<Rightarrow> ch)"

definition toUpperCase :: "string \<Rightarrow> string" where
  "toUpperCase s = map upperChar s"

text \<open>A value used as a condition: \<open>null\<close> and the empty string are false.\<close>

definition truthy :: "string option \<Rightarrow> bool" where
  "truthy v = (case v of None \<Rightarrow> False | Some s \<Rightarrow> s \<noteq> [])"

subsection \<open>isNeighbor\<close>

definition isNeighbor :: "coords option \<Rightarrow> coords option \<Rightarrow> bool" where
  "isNeighbor coords1 coords2 =
     (case (coords1, coords2) of
        (Some (r1, c1), Some (r2, c2)) \<Rightarrow>
          (let dr = \<bar>int r1 - int r2\<bar>; dc = \<bar>int c1 - int c2\<bar>
           in dr \<le> 1 \<and> dc \<le> 1 \<and> (dr \<noteq> 0 \<or> dc \<noteq> 0))
      | _ \<Rightarrow> False)"

subsection \<open>Reading and writing the grid\<close>

text \<open>
  What a slot holds, with \<open>None\<close> outside the grid. The invariants and the frame
  conditions below are stated with it.
\<close>

definition cellAt :: "grid \<Rightarrow> nat \<Rightarrow> nat \<Rightarrow> cell option" where
  "cellAt g r c = (if r < length g \<and> c < length (g ! r) then g ! r ! c else None)"

text \<open>
  An assignment \<open>xs[i] = v\<close>: beyond the end the array grows, and the slots between
  are holes, which every handler reads as empty.
\<close>

definition setIndex :: "'a option list \<Rightarrow> nat \<Rightarrow> 'a option \<Rightarrow> 'a option list" where
  "setIndex xs i v =
     (if i < length xs then xs[i := v] else xs @ replicate (i - length xs) None @ [v])"

text \<open>\<open>newGridCells[rowIndex][colIndex] = v\<close> on the copy, for a row that exists.\<close>

definition setCell :: "grid \<Rightarrow> nat \<Rightarrow> nat \<Rightarrow> cell option \<Rightarrow> grid" where
  "setCell g r c v = g[r := setIndex (g ! r) c v]"

subsection \<open>The scan for the highest sequence index of a word\<close>

text \<open>
  The two nested \<open>for\<close> loops of \<open>handleSelectWord\<close> and of the toggle-off branch of
  \<open>handleCellClick\<close>: the pair carried along is
  \<open>(maxSequenceIndex, currentLastPlacedCoords)\<close>.
\<close>

fun scanRow ::
  "string \<Rightarrow> nat \<Rightarrow> cell option list \<Rightarrow> nat \<Rightarrow> int \<times> coords option \<Rightarrow> int \<times> coords option"
where
  "scanRow w r [] c acc = acc"
| "scanRow w r (x # xs) c (m, co) =
     scanRow w r xs (Suc c)
       (case x of
          None \<Rightarrow> (m, co)
        | Some cl \<Rightarrow>
            if wordId cl = w \<and> int (sequenceIndex cl) > m
            then (int (sequenceIndex cl), Some (r, c))
            else (m, co))"

fun scanGrid ::
  "string \<Rightarrow> grid \<Rightarrow> nat \<Rightarrow> int \<times> coords option \<Rightarrow> int \<times> coords option"
where
  "scanGrid w [] r acc = acc"
| "scanGrid w (rw # rws) r acc = scanGrid w rws (Suc r) (scanRow w r rw 0 acc)"

definition findHighest :: "string \<Rightarrow> grid \<Rightarrow> int \<times> coords option" where
  "findHighest w g = scanGrid w g 0 (- 1, None)"

subsection \<open>The handlers\<close>

definition handleInputChange :: "state \<Rightarrow> string \<Rightarrow> state" where
  "handleInputChange s v = s\<lparr>currentWord := v\<rparr>"

text \<open>\<open>crypto.randomUUID()\<close> is the argument \<open>newId\<close>.\<close>

definition handleAddWord :: "state \<Rightarrow> string \<Rightarrow> state" where
  "handleAddWord s newId =
     (if trim (currentWord s) \<noteq> []
      then
        (let newWordColor = WORD_COLORS ! (nextColorIndex s mod length WORD_COLORS);
             newWord = \<lparr>w_id = newId, w_text = trim (currentWord s), w_color = newWordColor\<rparr>
         in s\<lparr>nextColorIndex := nextColorIndex s + 1,
               enteredWords := enteredWords s @ [newWord],
               currentWord := []\<rparr>)
      else s)"

definition handleEditClick :: "state \<Rightarrow> string \<Rightarrow> string \<Rightarrow> state" where
  "handleEditClick s wId currentText =
     s\<lparr>editMode := Some wId, editedWordText := currentText,
       selectedWordData := noSelection\<rparr>"

definition handleEditInputChange :: "state \<Rightarrow> string \<Rightarrow> state" where
  "handleEditInputChange s v = s\<lparr>editedWordText := v\<rparr>"

definition clearCellsForWord :: "state \<Rightarrow> string \<Rightarrow> state" where
  "clearCellsForWord s wordIdToClear =
     (let updatedGrid =
            map (\<lambda>rw. map (\<lambda>cl. case cl of
                                   None \<Rightarrow> None
                                 | Some x \<Rightarrow> if wordId x = wordIdToClear then None else Some x) rw)
                (gridCells s);
          s1 = s\<lparr>gridCells := updatedGrid\<rparr>
      in if sel_id (selectedWordData s) = Some wordIdToClear
         then s1\<lparr>selectedWordData :=
                   (selectedWordData s)\<lparr>letterIndex := 0, lastPlacedCoords := None\<rparr>\<rparr>
         else s1)"

definition handleSaveEdit :: "state \<Rightarrow> string \<Rightarrow> state" where
  "handleSaveEdit s wId =
     (let originalWord = find (\<lambda>w. w_id w = wId) (enteredWords s)
      in if trim (editedWordText s) \<noteq> []
         then
           (let s1 = (case originalWord of
                        None \<Rightarrow> s
                      | Some ow \<Rightarrow>
                          if w_text ow \<noteq> trim (editedWordText s)
                          then clearCellsForWord s wId else s);
                updatedWords =
                  map (\<lambda>w. if w_id w = wId then w\<lparr>w_text := trim (editedWordText s)\<rparr> else w)
                      (enteredWords s)
            in s1\<lparr>enteredWords := updatedWords, editMode := None, editedWordText := []\<rparr>)
         else s\<lparr>editMode := None, editedWordText := []\<rparr>)"

definition handleCancelEdit :: "state \<Rightarrow> state" where
  "handleCancelEdit s = s\<lparr>editMode := None, editedWordText := []\<rparr>"

definition handleClearWordCellsButton :: "state \<Rightarrow> string \<Rightarrow> state" where
  "handleClearWordCellsButton s wId = clearCellsForWord s wId"

definition handleSelectWord :: "state \<Rightarrow> string \<Rightarrow> string \<Rightarrow> string \<Rightarrow> state" where
  "handleSelectWord s wId wordText wordColor =
     (if sel_id (selectedWordData s) = Some wId
      then s\<lparr>selectedWordData := noSelection, editMode := None\<rparr>
      else
        (let (maxSequenceIndex, currentLastPlacedCoords) = findHighest wId (gridCells s);
             newLetterIndex = (if maxSequenceIndex = - 1 then 0 else nat (maxSequenceIndex + 1))
         in s\<lparr>selectedWordData :=
                 \<lparr>sel_id = Some wId, sel_text = Some (trim wordText),
                  sel_color = Some wordColor, letterIndex = newLetterIndex,
                  lastPlacedCoords = currentLastPlacedCoords\<rparr>,
               editMode := None\<rparr>))"

text \<open>
  \<open>handleCellClick\<close>. Reading \<open>newGridCells[rowIndex][colIndex]\<close> in a row that
  does not exist throws a \<open>TypeError\<close> before any state is set; a column beyond
  the row reads \<open>undefined\<close>, which the handler treats as an empty cell.
\<close>

definition handleCellClick :: "state \<Rightarrow> nat \<Rightarrow> nat \<Rightarrow> error + state" where
  "handleCellClick s rowIndex colIndex =
     (let newGridCells = gridCells s;
          sd = selectedWordData s
      in if rowIndex \<ge> length newGridCells then Inl TypeError
         else
           (let currentCellContent =
                  (if colIndex < length (newGridCells ! rowIndex)
                   then newGridCells ! rowIndex ! colIndex else None);
                currentLetterIndex = letterIndex sd
            in if truthy (sel_id sd) \<and> truthy (sel_text sd) \<and> truthy (sel_color sd)
               then
                 (let selectedWordId = the (sel_id sd);
                      selectedWordText = the (sel_text sd);
                      selectedColor = the (sel_color sd)
                  in if currentLetterIndex \<ge> length selectedWordText
                     then Inr (s\<lparr>selectedWordData := noSelection\<rparr>)
                     else
                       (let letterToPlace =
                              toUpperCase (charAt selectedWordText currentLetterIndex)
                        in case currentCellContent of
                             Some occ \<Rightarrow>
                               if wordId occ = selectedWordId
                               then
                                 (let g1 = setCell newGridCells rowIndex colIndex None;
                                      (highestSequenceIndex, newLastCoords) =
                                        findHighest selectedWordId g1
                                  in Inr (s\<lparr>gridCells := g1,
                                            selectedWordData :=
                                              sd\<lparr>letterIndex :=
                                                   nat (max 0 (highestSequenceIndex + 1)),
                                                 lastPlacedCoords := newLastCoords\<rparr>\<rparr>))
                               else Inr s
                           | None \<Rightarrow>
                               (let isFirstLetter = (currentLetterIndex = 0);
                                    isValidPlacement =
                                      (isFirstLetter \<or>
                                       isNeighbor (lastPlacedCoords sd)
                                         (Some (rowIndex, colIndex)))
                                in if isValidPlacement
                                   then
                                     (let g1 = setCell newGridCells rowIndex colIndex
                                                 (Some \<lparr>letter = letterToPlace,
                                                        wordId = selectedWordId,
                                                        color = selectedColor,
                                                        sequenceIndex = currentLetterIndex,
                                                        row = rowIndex, col = colIndex\<rparr>);
                                          nextLetterIndex = currentLetterIndex + 1
                                      in if nextLetterIndex \<ge> length selectedWordText
                                         then Inr (s\<lparr>gridCells := g1,
                                                     selectedWordData := noSelection\<rparr>)
                                         else Inr (s\<lparr>gridCells := g1,
                                                     selectedWordData :=
                                                       sd\<lparr>letterIndex := nextLetterIndex,
                                                          lastPlacedCoords :=
                                                            Some (rowIndex, colIndex)\<rparr>\<rparr>))
                                   else Inr s)))
               else Inr s))"


subsection \<open>handleExport\<close>

definition digitChar :: "nat \<Rightarrow> char" where
  "digitChar d = ''0123456789'' ! d"

text \<open>A number in a template literal: its decimal digits, with a sign when negative.\<close>

function showNat :: "nat \<Rightarrow> string" where
  "showNat n = (if n < 10 then [digitChar n] else showNat (n div 10) @ [digitChar (n mod 10)])"
  by pat_completeness auto
termination
  by (relation "measure (\<lambda>n. n)") auto

declare showNat.simps [simp del]

definition showInt :: "int \<Rightarrow> string" where
  "showInt i = (if i < 0 then CHR ''-'' # showNat (nat (- i)) else showNat (nat i))"

text \<open>\<open>Array.prototype.join\<close>.\<close>

fun joinWith :: "string \<Rightarrow> string list \<Rightarrow> string" where
  "joinWith sep [] = []"
| "joinWith sep [x] = x"
| "joinWith sep (x # y # ys) = x @ sep @ joinWith sep (y # ys)"

text \<open>\<open>Array.prototype.indexOf\<close>: the first index of the element, or \<open>-1\<close>.\<close>

fun indexOfFrom :: "'a list \<Rightarrow> 'a \<Rightarrow> nat \<Rightarrow> int" where
  "indexOfFrom [] x i = - 1"
| "indexOfFrom (y # ys) x i = (if y = x then int i else indexOfFrom ys x (Suc i))"

definition indexOf :: "'a list \<Rightarrow> 'a \<Rightarrow> int" where
  "indexOf xs x = indexOfFrom xs x 0"

text \<open>The byte-order mark \<open>U+FEFF\<close>, as the three bytes the UTF-8 file starts with.\<close>

definition BOM :: string where
  "BOM = [CHR 0xEF, CHR 0xBB, CHR 0xBF]"

text \<open>The callback of \<open>map\<close> in \<open>gridDataLine\<close>.\<close>

definition cellRecord :: "word list \<Rightarrow> cell \<Rightarrow> string" where
  "cellRecord ws cellContent =
     (let wordObj = find (\<lambda>w. w_id w = wordId cellContent) ws;
          wordIndex = (case wordObj of Some wo \<Rightarrow> indexOf ws wo | None \<Rightarrow> - 1)
      in showInt wordIndex @ '';'' @ showNat (sequenceIndex cellContent) @ '';'' @
         showNat (row cellContent) @ '';'' @ showNat (col cellContent))"

text \<open>The text handed to the \<open>Blob\<close>.\<close>

definition handleExport :: "state \<Rightarrow> string" where
  "handleExport s =
     (let themeLine = themeText s;
          hintLine = hintText s;
          wordsLine = joinWith '','' (map w_text (enteredWords s));
          gridDataLine =
            joinWith '',''
              (map (\<lambda>cellContent. cellRecord (enteredWords s) (the cellContent))
                 (filter (\<lambda>cellContent. cellContent \<noteq> None) (concat (gridCells s))))
      in BOM @ themeLine @ [CHR 0x0A] @ hintLine @ [CHR 0x0A] @ wordsLine @ [CHR 0x0A] @
         gridDataLine)"

subsection \<open>Events and reachable states\<close>

text \<open>
  One constructor for each handler wired to the page; the two text inputs of theme and
  hint call their setters directly.
\<close>

datatype event =
    InputChange string
  | AddWord string
  | EditClick string string
  | EditInputChange string
  | SaveEdit string
  | CancelEdit
  | ClearWordCellsButton string
  | SelectWord string string string
  | CellClick nat nat
  | SetThemeText string
  | SetHintText string

fun step :: "state \<Rightarrow> event \<Rightarrow> error + state" where
  "step s (InputChange v) = Inr (handleInputChange s v)"
| "step s (AddWord newId) = Inr (handleAddWord s newId)"
| "step s (EditClick wId currentText) = Inr (handleEditClick s wId currentText)"
| "step s (EditInputChange v) = Inr (handleEditInputChange s v)"
| "step s (SaveEdit wId) = Inr (handleSaveEdit s wId)"
| "step s CancelEdit = Inr (handleCancelEdit s)"
| "step s (ClearWordCellsButton wId) = Inr (handleClearWordCellsButton s wId)"
| "step s (SelectWord wId wordText wordColor) = Inr (handleSelectWord s wId wordText wordColor)"
| "step s (CellClick r c) = handleCellClick s r c"
| "step s (SetThemeText v) = Inr (s\<lparr>themeText := v\<rparr>)"
| "step s (SetHintText v) = Inr (s\<lparr>hintText := v\<rparr>)"

text \<open>A handler that throws leaves the state of the last render in place.\<close>

fun run :: "state \<Rightarrow> event list \<Rightarrow> state" where
  "run s [] = s"
| "run s (e # es) = (case step s e of Inl err \<Rightarrow> run s es | Inr s' \<Rightarrow> run s' es)"

inductive reachable :: "state \<Rightarrow> bool" where
  reachable_init: "reachable initialState"
| reachable_step: "reachable s \<Longrightarrow> step s e = Inr s' \<Longrightarrow> reachable s'"

subsection \<open>The vocabulary of the specification\<close>

text \<open>
  A Selection exists when the guard of \<open>handleCellClick\<close> lets the click through:
  \<open>id\<close>, \<open>text\<close> and \<open>color\<close> are all set and not empty.
\<close>

definition selectionActive :: "selection \<Rightarrow> bool" where
  "selectionActive sd = (truthy (sel_id sd) \<and> truthy (sel_text sd) \<and> truthy (sel_color sd))"

text \<open>Two coordinates are 8-neighbours: each differs by at most one, and they differ.\<close>

definition eightNeighbor :: "coords \<Rightarrow> coords \<Rightarrow> bool" where
  "eightNeighbor p q =
     (\<bar>int (fst p) - int (fst q)\<bar> \<le> 1 \<and> \<bar>int (snd p) - int (snd q)\<bar> \<le> 1 \<and> p \<noteq> q)"

text \<open>The word \<open>w\<close> owns the occupied cell \<open>x\<close> at \<open>(r, c)\<close>.\<close>

definition ownedAt :: "grid \<Rightarrow> string \<Rightarrow> nat \<Rightarrow> nat \<Rightarrow> cell \<Rightarrow> bool" where
  "ownedAt g w r c x = (cellAt g r c = Some x \<and> wordId x = w)"

text \<open>
  The resumption point of word \<open>w\<close> on grid \<open>g\<close>: index 0 and no coordinate when the
  word owns no cell; otherwise one more than the highest sequence index of its cells,
  and the coordinates of a cell that holds that index.
\<close>

definition resumesAt :: "grid \<Rightarrow> string \<Rightarrow> nat \<Rightarrow> coords option \<Rightarrow> bool" where
  "resumesAt g w n lc =
     (if \<exists>r c x. ownedAt g w r c x
      then \<exists>r c y. ownedAt g w r c y \<and>
             (\<forall>r' c' x. ownedAt g w r' c' x \<longrightarrow> sequenceIndex x \<le> sequenceIndex y) \<and>
             n = sequenceIndex y + 1 \<and> lc = Some (r, c)
      else n = 0 \<and> lc = None)"

text \<open>Invariant I2: no two occupied cells share word and sequence index.\<close>

definition uniquePlacement :: "grid \<Rightarrow> bool" where
  "uniquePlacement g =
     (\<forall>r c r' c' x y.
        cellAt g r c = Some x \<and> cellAt g r' c' = Some y \<and>
        wordId x = wordId y \<and> sequenceIndex x = sequenceIndex y \<longrightarrow>
        r = r' \<and> c = c')"

text \<open>
  The export file as the specification words it. The position of a word in the
  registry, counted from 0, is the first entry with its identifier.
\<close>

fun positionOf :: "word list \<Rightarrow> string \<Rightarrow> nat option" where
  "positionOf [] wId = None"
| "positionOf (w # ws) wId =
     (if w_id w = wId then Some 0 else map_option Suc (positionOf ws wId))"

definition specRecord :: "word list \<Rightarrow> cell \<Rightarrow> string" where
  "specRecord ws p =
     showInt (case positionOf ws (wordId p) of Some i \<Rightarrow> int i | None \<Rightarrow> - 1) @ '';'' @
     showNat (sequenceIndex p) @ '';'' @ showNat (row p) @ '';'' @ showNat (col p)"

definition specRecords :: "word list \<Rightarrow> grid \<Rightarrow> string list" where
  "specRecords ws g =
     concat (map (\<lambda>r. concat (map (\<lambda>c. case cellAt g r c of
                                          None \<Rightarrow> []
                                        | Some p \<Rightarrow> [specRecord ws p]) [0..<6])) [0..<8])"

definition specExportBody :: "string \<Rightarrow> string \<Rightarrow> word list \<Rightarrow> grid \<Rightarrow> string" where
  "specExportBody theme hint ws g =
     theme @ [CHR 0x0A] @ hint @ [CHR 0x0A] @ joinWith '','' (map w_text ws) @ [CHR 0x0A] @
     joinWith '','' (specRecords ws g)"

text \<open>The grid has its 8 rows of 6 slots.\<close>

definition gridShape :: "grid \<Rightarrow> bool" where
  "gridShape g = (length g = 8 \<and> (\<forall>rw \<in> set g. length rw = 6))"

text \<open>Invariant I1: an occupied cell stores the coordinates of its own slot.\<close>

definition coordsStored :: "grid \<Rightarrow> bool" where
  "coordsStored g = (\<forall>r c x. cellAt g r c = Some x \<longrightarrow> row x = r \<and> col x = c)"

subsection \<open>Auxiliary invariants of the selection\<close>

text \<open>
  The selected word's next index lies beyond every sequence index the word has on the
  grid.
\<close>

definition selAhead :: "state \<Rightarrow> bool" where
  "selAhead s =
     (\<forall>w r c x. sel_id (selectedWordData s) = Some w \<and> ownedAt (gridCells s) w r c x \<longrightarrow>
                sequenceIndex x < letterIndex (selectedWordData s))"

text \<open>A positive next index comes with the coordinates of the last letter.\<close>

definition coordsKnown :: "selection \<Rightarrow> bool" where
  "coordsKnown sd = (0 < letterIndex sd \<longrightarrow> lastPlacedCoords sd \<noteq> None)"

subsection \<open>Example sessions\<close>

text \<open>
  The word \<open>cat\<close> is added and selected, and its first two letters are placed at
  \<open>(0, 0)\<close> and \<open>(0, 1)\<close>.
\<close>

definition catEvents :: "event list" where
  "catEvents =
     [InputChange ''cat'', AddWord ''w1'', SelectWord ''w1'' ''cat'' ''#EF4444'',
      CellClick 0 0, CellClick 0 1]"

definition catPartial :: state where
  "catPartial = run initialState catEvents"

text \<open>The same session, with the word deselected afterwards.\<close>

definition catDeselected :: state where
  "catDeselected = run catPartial [SelectWord ''w1'' ''cat'' ''#EF4444'']"

text \<open>
  Two one-letter words: \<open>b\<close> is placed at \<open>(0, 1)\<close> and \<open>a\<close> at \<open>(0, 0)\<close>; then
  \<open>a\<close>, which is complete, is selected again.
\<close>

definition staleEvents :: "event list" where
  "staleEvents =
     [InputChange ''a'', AddWord ''w1'', InputChange ''b'', AddWord ''w2'',
      SelectWord ''w2'' ''b'' ''#3B82F6'', CellClick 0 1,
      SelectWord ''w1'' ''a'' ''#EF4444'', CellClick 0 0,
      SelectWord ''w1'' ''a'' ''#EF4444'']"

definition staleSelection :: state where
  "staleSelection = run initialState staleEvents"

text \<open>
  Two words: the letter of \<open>b\<close> is on the grid at \<open>(0, 1)\<close>, and \<open>cat\<close> is selected
  with its first letter at \<open>(0, 0)\<close>.
\<close>

definition twoWordEvents :: "event list" where
  "twoWordEvents =
     [InputChange ''cat'', AddWord ''w1'', InputChange ''b'', AddWord ''w2'',
      SelectWord ''w2'' ''b'' ''#3B82F6'', CellClick 0 1,
      SelectWord ''w1'' ''cat'' ''#EF4444'', CellClick 0 0]"

definition twoWords :: state where
  "twoWords = run initialState twoWordEvents"

text \<open>The export scenario: theme, hint, two words and one placed letter.\<close>

definition farmEvents :: "event list" where
  "farmEvents =
     [SetThemeText ''Animals'', SetHintText ''Farm'',
      InputChange ''CAT'', AddWord ''w1'', InputChange ''DOG'', AddWord ''w2'',
      SelectWord ''w1'' ''CAT'' ''#EF4444'', CellClick 0 0]"

definition farm :: state where
  "farm = run initialState farmEvents"

section \<open>Properties\<close>

subsection \<open>The scan returns the highest sequence index and where it is\<close>

lemma scanRow_mono: "fst acc \<le> fst (scanRow w r xs c acc)"
proof (induction xs arbitrary: c acc)
  case Nil
  show ?case by simp
next
  case (Cons x xs)
  obtain m co where acc: "acc = (m, co)" by (cases acc)
  have a: "m \<le> fst (scanRow w r xs (Suc c) (m, co))"
    using Cons.IH[of "(m, co)" "Suc c"] by simp
  have b: "m \<le> fst (scanRow w r xs (Suc c) (k, p))" if "m < k" for k p
    using Cons.IH[of "(k, p)" "Suc c"] that by simp
  show ?case unfolding acc using a b by (cases x) auto
qed

lemma scanRow_upper:
  "i < length xs \<Longrightarrow> xs ! i = Some x \<Longrightarrow> wordId x = w \<Longrightarrow>
   int (sequenceIndex x) \<le> fst (scanRow w r xs c acc)"
proof (induction xs arbitrary: i c acc)
  case Nil
  then show ?case by simp
next
  case (Cons y ys)
  obtain m co where acc: "acc = (m, co)" by (cases acc)
  show ?case
  proof (cases i)
    case 0
    with Cons.prems have y: "y = Some x" by simp
    show ?thesis
    proof (cases "int (sequenceIndex x) > m")
      case True
      then show ?thesis unfolding acc y using Cons.prems(3)
          scanRow_mono[of "(int (sequenceIndex x), Some (r, c))" w r ys "Suc c"] by simp
    next
      case False
      then show ?thesis unfolding acc y using Cons.prems(3)
          scanRow_mono[of "(m, co)" w r ys "Suc c"] by simp
    qed
  next
    case (Suc j)
    with Cons.prems have "j < length ys" "ys ! j = Some x" by simp_all
    from Cons.IH[OF this Cons.prems(3)] show ?thesis unfolding acc by simp
  qed
qed

lemma scanRow_origin:
  "scanRow w r xs c acc = acc \<or>
   (\<exists>i x. i < length xs \<and> xs ! i = Some x \<and> wordId x = w \<and>
          scanRow w r xs c acc = (int (sequenceIndex x), Some (r, c + i)))"
proof (induction xs arbitrary: c acc)
  case Nil
  show ?case by simp
next
  case (Cons y ys)
  obtain m co where acc: "acc = (m, co)" by (cases acc)
  define acc' where "acc' = (case y of None \<Rightarrow> (m, co)
        | Some cl \<Rightarrow> if wordId cl = w \<and> int (sequenceIndex cl) > m
            then (int (sequenceIndex cl), Some (r, c)) else (m, co))"
  have step: "scanRow w r (y # ys) c acc = scanRow w r ys (Suc c) acc'"
    unfolding acc acc'_def by simp
  have first: "acc' = acc \<or> (\<exists>x. y = Some x \<and> wordId x = w \<and> acc' = (int (sequenceIndex x), Some (r, c)))"
    unfolding acc acc'_def by (cases y) auto
  from Cons.IH[of "Suc c" acc'] show ?case
  proof
    assume same: "scanRow w r ys (Suc c) acc' = acc'"
    from first show ?thesis
    proof
      assume "acc' = acc"
      with same step show ?thesis by simp
    next
      assume "\<exists>x. y = Some x \<and> wordId x = w \<and> acc' = (int (sequenceIndex x), Some (r, c))"
      then obtain x where "y = Some x" "wordId x = w" "acc' = (int (sequenceIndex x), Some (r, c))"
        by blast
      with same step have "0 < length (y # ys) \<and> (y # ys) ! 0 = Some x \<and> wordId x = w \<and>
          scanRow w r (y # ys) c acc = (int (sequenceIndex x), Some (r, c + 0))" by simp
      then show ?thesis by blast
    qed
  next
    assume "\<exists>i x. i < length ys \<and> ys ! i = Some x \<and> wordId x = w \<and>
          scanRow w r ys (Suc c) acc' = (int (sequenceIndex x), Some (r, Suc c + i))"
    then obtain i x where "i < length ys" "ys ! i = Some x" "wordId x = w"
      "scanRow w r ys (Suc c) acc' = (int (sequenceIndex x), Some (r, Suc c + i))" by blast
    with step have "Suc i < length (y # ys) \<and> (y # ys) ! Suc i = Some x \<and> wordId x = w \<and>
          scanRow w r (y # ys) c acc = (int (sequenceIndex x), Some (r, c + Suc i))" by simp
    then show ?thesis by blast
  qed
qed


lemma scanGrid_mono: "fst acc \<le> fst (scanGrid w g r acc)"
proof (induction g arbitrary: r acc)
  case Nil
  show ?case by simp
next
  case (Cons rw rws)
  have "fst acc \<le> fst (scanRow w r rw 0 acc)" by (rule scanRow_mono)
  also have "\<dots> \<le> fst (scanGrid w rws (Suc r) (scanRow w r rw 0 acc))" by (rule Cons.IH)
  finally show ?case by simp
qed

lemma scanGrid_upper:
  "i < length g \<Longrightarrow> j < length (g ! i) \<Longrightarrow> g ! i ! j = Some x \<Longrightarrow> wordId x = w \<Longrightarrow>
   int (sequenceIndex x) \<le> fst (scanGrid w g r acc)"
proof (induction g arbitrary: i r acc)
  case Nil
  then show ?case by simp
next
  case (Cons rw rws)
  show ?case
  proof (cases i)
    case 0
    with Cons.prems have "j < length rw" "rw ! j = Some x" by simp_all
    then have "int (sequenceIndex x) \<le> fst (scanRow w r rw 0 acc)"
      using Cons.prems(4) by (rule scanRow_upper)
    also have "\<dots> \<le> fst (scanGrid w rws (Suc r) (scanRow w r rw 0 acc))"
      by (rule scanGrid_mono)
    finally show ?thesis by simp
  next
    case (Suc k)
    with Cons.prems have "k < length rws" "j < length (rws ! k)" "rws ! k ! j = Some x"
      by simp_all
    from Cons.IH[OF this Cons.prems(4)] show ?thesis by simp
  qed
qed

lemma scanGrid_origin:
  "scanGrid w g r acc = acc \<or>
   (\<exists>i j x. i < length g \<and> j < length (g ! i) \<and> g ! i ! j = Some x \<and> wordId x = w \<and>
            scanGrid w g r acc = (int (sequenceIndex x), Some (r + i, j)))"
proof (induction g arbitrary: r acc)
  case Nil
  show ?case by simp
next
  case (Cons rw rws)
  define acc' where "acc' = scanRow w r rw 0 acc"
  have step: "scanGrid w (rw # rws) r acc = scanGrid w rws (Suc r) acc'"
    unfolding acc'_def by simp
  have first: "acc' = acc \<or>
     (\<exists>j x. j < length rw \<and> rw ! j = Some x \<and> wordId x = w \<and>
            acc' = (int (sequenceIndex x), Some (r, j)))"
    unfolding acc'_def using scanRow_origin[of w r rw 0 acc] by simp
  have rest: "scanGrid w rws (Suc r) acc' = acc' \<or>
     (\<exists>i j x. i < length rws \<and> j < length (rws ! i) \<and> rws ! i ! j = Some x \<and> wordId x = w \<and>
              scanGrid w rws (Suc r) acc' = (int (sequenceIndex x), Some (Suc r + i, j)))"
    by (rule Cons.IH)
  from rest show ?case
  proof
    assume same: "scanGrid w rws (Suc r) acc' = acc'"
    from first show ?thesis
    proof
      assume "acc' = acc"
      with same step show ?thesis by simp
    next
      assume "\<exists>j x. j < length rw \<and> rw ! j = Some x \<and> wordId x = w \<and>
            acc' = (int (sequenceIndex x), Some (r, j))"
      then obtain j x where "j < length rw" "rw ! j = Some x" "wordId x = w"
        "acc' = (int (sequenceIndex x), Some (r, j))" by blast
      with same step have "0 < length (rw # rws) \<and> j < length ((rw # rws) ! 0) \<and>
          (rw # rws) ! 0 ! j = Some x \<and> wordId x = w \<and>
          scanGrid w (rw # rws) r acc = (int (sequenceIndex x), Some (r + 0, j))" by simp
      then show ?thesis by blast
    qed
  next
    assume "\<exists>i j x. i < length rws \<and> j < length (rws ! i) \<and> rws ! i ! j = Some x \<and> wordId x = w \<and>
              scanGrid w rws (Suc r) acc' = (int (sequenceIndex x), Some (Suc r + i, j))"
    then obtain i j x where "i < length rws" "j < length (rws ! i)" "rws ! i ! j = Some x"
      "wordId x = w" "scanGrid w rws (Suc r) acc' = (int (sequenceIndex x), Some (Suc r + i, j))"
      by blast
    with step have "Suc i < length (rw # rws) \<and> j < length ((rw # rws) ! Suc i) \<and>
          (rw # rws) ! Suc i ! j = Some x \<and> wordId x = w \<and>
          scanGrid w (rw # rws) r acc = (int (sequenceIndex x), Some (r + Suc i, j))" by simp
    then show ?thesis by blast
  qed
qed

lemma cellAt_SomeD:
  "cellAt g r c = Some x \<Longrightarrow> r < length g \<and> c < length (g ! r) \<and> g ! r ! c = Some x"
  by (simp add: cellAt_def split: if_splits)

lemma cellAt_SomeI:
  "r < length g \<Longrightarrow> c < length (g ! r) \<Longrightarrow> g ! r ! c = Some x \<Longrightarrow> cellAt g r c = Some x"
  by (simp add: cellAt_def)

lemma findHighest_none:
  assumes "\<And>r c x. cellAt g r c = Some x \<Longrightarrow> wordId x \<noteq> w"
  shows "findHighest w g = (- 1, None)"
proof -
  from scanGrid_origin[of w g 0 "(- 1, None)"] show ?thesis
  proof
    assume "scanGrid w g 0 (- 1, None) = (- 1, None)"
    then show ?thesis by (simp add: findHighest_def)
  next
    assume "\<exists>i j x. i < length g \<and> j < length (g ! i) \<and> g ! i ! j = Some x \<and> wordId x = w \<and>
            scanGrid w g 0 (- 1, None) = (int (sequenceIndex x), Some (0 + i, j))"
    then obtain i j x where ij: "i < length g" "j < length (g ! i)" "g ! i ! j = Some x"
      and w: "wordId x = w" by blast
    from ij have "cellAt g i j = Some x" by (rule cellAt_SomeI)
    with assms w show ?thesis by blast
  qed
qed

lemma findHighest_some:
  assumes "cellAt g r c = Some x" and "wordId x = w"
  shows "\<exists>r' c' y. cellAt g r' c' = Some y \<and> wordId y = w \<and>
           findHighest w g = (int (sequenceIndex y), Some (r', c')) \<and>
           (\<forall>r c x. cellAt g r c = Some x \<and> wordId x = w \<longrightarrow>
                    sequenceIndex x \<le> sequenceIndex y)"
proof -
  have upper: "int (sequenceIndex z) \<le> fst (findHighest w g)"
    if "cellAt g a b = Some z" "wordId z = w" for a b z
  proof -
    from that(1) have "a < length g" "b < length (g ! a)" "g ! a ! b = Some z"
      using cellAt_SomeD by blast+
    then show ?thesis unfolding findHighest_def using that(2) by (rule scanGrid_upper)
  qed
  from upper[OF assms] have "findHighest w g \<noteq> (- 1, None)" by auto
  with scanGrid_origin[of w g 0 "(- 1, None)"]
  obtain i j y where y: "i < length g" "j < length (g ! i)" "g ! i ! j = Some y"
    and wy: "wordId y = w"
    and res: "findHighest w g = (int (sequenceIndex y), Some (i, j))"
    unfolding findHighest_def by auto
  from y have "cellAt g i j = Some y" by (rule cellAt_SomeI)
  moreover have "\<forall>r c x. cellAt g r c = Some x \<and> wordId x = w \<longrightarrow>
                    sequenceIndex x \<le> sequenceIndex y"
    using upper res by fastforce
  ultimately show ?thesis using wy res by blast
qed

subsection \<open>Reading the grid after a write\<close>

lemma cellAt_setCell:
  "r < length g \<Longrightarrow>
   cellAt (setCell g r c v) r' c' = (if r' = r \<and> c' = c then v else cellAt g r' c')"
  by (auto simp: cellAt_def setCell_def setIndex_def nth_list_update nth_append)

lemma cellAt_map_map:
  "f None = None \<Longrightarrow> cellAt (map (map f) g) r c = f (cellAt g r c)"
  by (cases "r < length g") (auto simp: cellAt_def)

lemma isNeighbor_iff:
  "isNeighbor lc (Some q) = (\<exists>p. lc = Some p \<and> eightNeighbor p q)"
  by (cases lc; cases q) (auto simp: isNeighbor_def eightNeighbor_def Let_def)

lemma findHighest_resumes:
  "findHighest w g = (m, lc) \<Longrightarrow> resumesAt g w (nat (max 0 (m + 1))) lc"
proof (cases "\<exists>r c x. ownedAt g w r c x")
  case True
  assume fh: "findHighest w g = (m, lc)"
  from True obtain r c x where "cellAt g r c = Some x" "wordId x = w"
    unfolding ownedAt_def by blast
  from findHighest_some[OF this] fh True show ?thesis
    unfolding resumesAt_def ownedAt_def by auto
next
  case False
  assume fh: "findHighest w g = (m, lc)"
  from False have "findHighest w g = (- 1, None)"
    by (intro findHighest_none) (auto simp: ownedAt_def)
  with fh False show ?thesis unfolding resumesAt_def by auto
qed

lemma newLetterIndex_max: "(if m = - 1 then 0 else nat (m + 1)) = nat (max 0 (m + 1))"
  by auto


subsection \<open>The branches of handleCellClick\<close>

lemma selectionActiveD:
  "selectionActive sd \<Longrightarrow>
   \<exists>w t k. sel_id sd = Some w \<and> sel_text sd = Some t \<and> sel_color sd = Some k \<and>
           w \<noteq> [] \<and> t \<noteq> [] \<and> k \<noteq> []"
  by (cases "sel_id sd"; cases "sel_text sd"; cases "sel_color sd")
     (simp_all add: selectionActive_def truthy_def)

lemma currentCellContent_cellAt:
  "r < length g \<Longrightarrow> (if c < length (g ! r) then g ! r ! c else None) = cellAt g r c"
  by (simp add: cellAt_def)

lemma hcc_row_missing:
  "length (gridCells s) \<le> r \<Longrightarrow> handleCellClick s r c = Inl TypeError"
  by (simp add: handleCellClick_def Let_def)

lemma hcc_inactive:
  "r < length (gridCells s) \<Longrightarrow> \<not> selectionActive (selectedWordData s) \<Longrightarrow>
   handleCellClick s r c = Inr s"
  unfolding handleCellClick_def Let_def selectionActive_def[symmetric] by simp

lemma hcc_exhausted:
  "r < length (gridCells s) \<Longrightarrow> selectionActive (selectedWordData s) \<Longrightarrow>
   sel_text (selectedWordData s) = Some t \<Longrightarrow> length t \<le> letterIndex (selectedWordData s) \<Longrightarrow>
   handleCellClick s r c = Inr (s\<lparr>selectedWordData := noSelection\<rparr>)"
  by (simp add: handleCellClick_def Let_def selectionActive_def)

lemma hcc_other_word:
  "r < length (gridCells s) \<Longrightarrow> selectionActive (selectedWordData s) \<Longrightarrow>
   sel_id (selectedWordData s) = Some w \<Longrightarrow>
   sel_text (selectedWordData s) = Some t \<Longrightarrow> letterIndex (selectedWordData s) < length t \<Longrightarrow>
   cellAt (gridCells s) r c = Some x \<Longrightarrow> wordId x \<noteq> w \<Longrightarrow>
   handleCellClick s r c = Inr s"
  by (simp add: handleCellClick_def Let_def selectionActive_def currentCellContent_cellAt)

lemma hcc_toggle_off:
  "r < length (gridCells s) \<Longrightarrow> selectionActive (selectedWordData s) \<Longrightarrow>
   sel_id (selectedWordData s) = Some w \<Longrightarrow>
   sel_text (selectedWordData s) = Some t \<Longrightarrow> letterIndex (selectedWordData s) < length t \<Longrightarrow>
   cellAt (gridCells s) r c = Some x \<Longrightarrow> wordId x = w \<Longrightarrow>
   findHighest w (setCell (gridCells s) r c None) = (m, lc) \<Longrightarrow>
   handleCellClick s r c =
     Inr (s\<lparr>gridCells := setCell (gridCells s) r c None,
            selectedWordData :=
              (selectedWordData s)\<lparr>letterIndex := nat (max 0 (m + 1)),
                                   lastPlacedCoords := lc\<rparr>\<rparr>)"
  by (simp add: handleCellClick_def Let_def selectionActive_def currentCellContent_cellAt)

lemma hcc_rejected:
  "r < length (gridCells s) \<Longrightarrow> selectionActive (selectedWordData s) \<Longrightarrow>
   sel_text (selectedWordData s) = Some t \<Longrightarrow> letterIndex (selectedWordData s) < length t \<Longrightarrow>
   cellAt (gridCells s) r c = None \<Longrightarrow>
   letterIndex (selectedWordData s) \<noteq> 0 \<Longrightarrow>
   \<not> isNeighbor (lastPlacedCoords (selectedWordData s)) (Some (r, c)) \<Longrightarrow>
   handleCellClick s r c = Inr s"
  by (simp add: handleCellClick_def Let_def selectionActive_def currentCellContent_cellAt)

lemma hcc_placed:
  "r < length (gridCells s) \<Longrightarrow> selectionActive (selectedWordData s) \<Longrightarrow>
   sel_id (selectedWordData s) = Some w \<Longrightarrow>
   sel_text (selectedWordData s) = Some t \<Longrightarrow> sel_color (selectedWordData s) = Some k \<Longrightarrow>
   letterIndex (selectedWordData s) < length t \<Longrightarrow>
   cellAt (gridCells s) r c = None \<Longrightarrow>
   letterIndex (selectedWordData s) = 0 \<or>
   isNeighbor (lastPlacedCoords (selectedWordData s)) (Some (r, c)) \<Longrightarrow>
   handleCellClick s r c =
     Inr (s\<lparr>gridCells :=
              setCell (gridCells s) r c
                (Some \<lparr>letter = toUpperCase (charAt t (letterIndex (selectedWordData s))),
                       wordId = w, color = k,
                       sequenceIndex = letterIndex (selectedWordData s),
                       row = r, col = c\<rparr>),
            selectedWordData :=
              (if length t \<le> letterIndex (selectedWordData s) + 1 then noSelection
               else (selectedWordData s)\<lparr>letterIndex := letterIndex (selectedWordData s) + 1,
                                         lastPlacedCoords := Some (r, c)\<rparr>)\<rparr>)"
  by (auto simp add: handleCellClick_def Let_def selectionActive_def currentCellContent_cellAt)

subsection \<open>What each handler keeps\<close>

lemma reachable_run: "reachable s \<Longrightarrow> reachable (run s es)"
proof (induction es arbitrary: s)
  case Nil
  then show ?case by simp
next
  case (Cons e es)
  show ?case
  proof (cases "step s e")
    case (Inl err)
    with Cons show ?thesis by simp
  next
    case (Inr s')
    with Cons.prems have "reachable s'" by (rule reachable_step)
    with Cons.IH Inr show ?thesis by simp
  qed
qed

lemma resumesAt_pos: "resumesAt g w n lc \<Longrightarrow> 0 < n \<Longrightarrow> lc \<noteq> None"
  by (auto simp: resumesAt_def split: if_splits)

lemma resumesAt_ahead: "resumesAt g w n lc \<Longrightarrow> ownedAt g w r c x \<Longrightarrow> sequenceIndex x < n"
  by (fastforce simp: resumesAt_def split: if_splits)

lemma hcc_cases:
  assumes "handleCellClick s r c = Inr s'"
  obtains (same) "s' = s"
  | (stale) "s' = s\<lparr>selectedWordData := noSelection\<rparr>"
  | (toggle) w m lc where "sel_id (selectedWordData s) = Some w"
      "r < length (gridCells s)"
      "findHighest w (setCell (gridCells s) r c None) = (m, lc)"
      "s' = s\<lparr>gridCells := setCell (gridCells s) r c None,
              selectedWordData :=
                (selectedWordData s)\<lparr>letterIndex := nat (max 0 (m + 1)),
                                     lastPlacedCoords := lc\<rparr>\<rparr>"
  | (placed) w t k where "sel_id (selectedWordData s) = Some w"
      "r < length (gridCells s)" "cellAt (gridCells s) r c = None"
      "s' = s\<lparr>gridCells :=
                setCell (gridCells s) r c
                  (Some \<lparr>letter = toUpperCase (charAt t (letterIndex (selectedWordData s))),
                         wordId = w, color = k,
                         sequenceIndex = letterIndex (selectedWordData s),
                         row = r, col = c\<rparr>),
              selectedWordData :=
                (if length t \<le> letterIndex (selectedWordData s) + 1 then noSelection
                 else (selectedWordData s)\<lparr>letterIndex := letterIndex (selectedWordData s) + 1,
                                           lastPlacedCoords := Some (r, c)\<rparr>)\<rparr>"
proof -
  have r: "r < length (gridCells s)"
  proof (rule ccontr)
    assume "\<not> r < length (gridCells s)"
    then have "handleCellClick s r c = Inl TypeError" by (simp add: hcc_row_missing)
    with assms show False by simp
  qed
  show thesis
  proof (cases "selectionActive (selectedWordData s)")
    case False
    from hcc_inactive[OF r False] assms same show ?thesis by simp
  next
    case True
    from selectionActiveD[OF True] obtain w t k where
      sel: "sel_id (selectedWordData s) = Some w" "sel_text (selectedWordData s) = Some t"
        "sel_color (selectedWordData s) = Some k" by blast
    show ?thesis
    proof (cases "letterIndex (selectedWordData s) < length t")
      case False
      then have "length t \<le> letterIndex (selectedWordData s)" by simp
      from hcc_exhausted[OF r True sel(2) this] assms stale show ?thesis by simp
    next
      case lt: True
      show ?thesis
      proof (cases "cellAt (gridCells s) r c")
        case None
        show ?thesis
        proof (cases "letterIndex (selectedWordData s) = 0 \<or>
               isNeighbor (lastPlacedCoords (selectedWordData s)) (Some (r, c))")
          case ok: True
          from hcc_placed[OF r True sel lt None ok] assms
          show ?thesis using placed[OF sel(1) r None] by simp
        next
          case False
          then have "letterIndex (selectedWordData s) \<noteq> 0"
            and "\<not> isNeighbor (lastPlacedCoords (selectedWordData s)) (Some (r, c))"
            by simp_all
          from hcc_rejected[OF r True sel(2) lt None this] assms same show ?thesis by simp
        qed
      next
        case (Some x)
        show ?thesis
        proof (cases "wordId x = w")
          case False
          from hcc_other_word[OF r True sel(1,2) lt Some False] assms same
          show ?thesis by simp
        next
          case own: True
          obtain m lc where fh: "findHighest w (setCell (gridCells s) r c None) = (m, lc)"
            by (cases "findHighest w (setCell (gridCells s) r c None)")
          from hcc_toggle_off[OF r True sel(1,2) lt Some own fh] assms
          show ?thesis using toggle[OF sel(1) r fh] by simp
        qed
      qed
    qed
  qed
qed


lemma uniquePlacement_subgrid:
  assumes "uniquePlacement g"
    and "\<And>r c x. cellAt g' r c = Some x \<Longrightarrow> cellAt g r c = Some x"
  shows "uniquePlacement g'"
  unfolding uniquePlacement_def
proof (intro allI impI)
  fix r c r' c' x y
  assume h: "cellAt g' r c = Some x \<and> cellAt g' r' c' = Some y \<and>
      wordId x = wordId y \<and> sequenceIndex x = sequenceIndex y"
  then have "cellAt g r c = Some x" "cellAt g r' c' = Some y" using assms(2) by blast+
  with assms(1) h show "r = r' \<and> c = c'" unfolding uniquePlacement_def by blast
qed

lemma uniquePlacement_place:
  assumes "uniquePlacement g" and "r < length g"
    and "\<And>a b x. ownedAt g (wordId p) a b x \<Longrightarrow> sequenceIndex x < sequenceIndex p"
  shows "uniquePlacement (setCell g r c (Some p))"
  unfolding uniquePlacement_def
proof (intro allI impI)
  fix a b a' b' x y
  assume h: "cellAt (setCell g r c (Some p)) a b = Some x \<and>
      cellAt (setCell g r c (Some p)) a' b' = Some y \<and>
      wordId x = wordId y \<and> sequenceIndex x = sequenceIndex y"
  have old: "sequenceIndex z < sequenceIndex p"
    if "cellAt g i j = Some z" "wordId z = wordId p" for i j z
    using assms(3)[of i j z] that by (simp add: ownedAt_def)
  show "a = a' \<and> b = b'"
  proof (cases "a = r \<and> b = c")
    case here: True
    with h assms(2) have x: "x = p" by (simp add: cellAt_setCell)
    show ?thesis
    proof (cases "a' = r \<and> b' = c")
      case True
      with here show ?thesis by simp
    next
      case False
      with h assms(2) have "cellAt g a' b' = Some y" by (simp add: cellAt_setCell)
      from old[OF this] h x show ?thesis by simp
    qed
  next
    case there: False
    with h assms(2) have gx: "cellAt g a b = Some x" by (simp add: cellAt_setCell)
    show ?thesis
    proof (cases "a' = r \<and> b' = c")
      case True
      with h assms(2) have "y = p" by (simp add: cellAt_setCell)
      with old[OF gx] h show ?thesis by simp
    next
      case False
      with h assms(2) have "cellAt g a' b' = Some y" by (simp add: cellAt_setCell)
      with gx assms(1) h show ?thesis unfolding uniquePlacement_def by blast
    qed
  qed
qed

lemma selAhead_noSelection: "selectedWordData s = noSelection \<Longrightarrow> selAhead s"
  by (simp add: selAhead_def noSelection_def)

lemma clear_inv:
  assumes "uniquePlacement (gridCells s)" and "selAhead s"
  shows "uniquePlacement (gridCells (clearCellsForWord s w)) \<and> selAhead (clearCellsForWord s w)"
proof -
  have cells: "cellAt (gridCells (clearCellsForWord s w)) r c =
      (case cellAt (gridCells s) r c of None \<Rightarrow> None
       | Some x \<Rightarrow> if wordId x = w then None else Some x)" for r c
    by (simp add: clearCellsForWord_def Let_def cellAt_map_map)
  have sub: "cellAt (gridCells s) r c = Some x \<and> wordId x \<noteq> w"
    if "cellAt (gridCells (clearCellsForWord s w)) r c = Some x" for r c x
    using that unfolding cells by (auto split: option.splits if_splits)
  have u: "uniquePlacement (gridCells (clearCellsForWord s w))"
  proof (rule uniquePlacement_subgrid[OF assms(1)])
    fix r c x assume "cellAt (gridCells (clearCellsForWord s w)) r c = Some x"
    from sub[OF this] show "cellAt (gridCells s) r c = Some x" ..
  qed
  have a: "selAhead (clearCellsForWord s w)"
  proof (cases "sel_id (selectedWordData s) = Some w")
    case True
    then have "sel_id (selectedWordData (clearCellsForWord s w)) = Some w"
      by (simp add: clearCellsForWord_def Let_def)
    then show ?thesis unfolding selAhead_def ownedAt_def using sub by auto
  next
    case False
    then have "selectedWordData (clearCellsForWord s w) = selectedWordData s"
      by (simp add: clearCellsForWord_def Let_def)
    then show ?thesis using assms(2) sub unfolding selAhead_def ownedAt_def by metis
  qed
  from u a show ?thesis ..
qed

lemma clear_coords:
  "coordsKnown (selectedWordData s) \<Longrightarrow> coordsKnown (selectedWordData (clearCellsForWord s w))"
  by (simp add: clearCellsForWord_def Let_def coordsKnown_def)

lemma select_inv:
  assumes "uniquePlacement (gridCells s)" and "selAhead s"
  shows "uniquePlacement (gridCells (handleSelectWord s w t k)) \<and>
         selAhead (handleSelectWord s w t k)"
proof (cases "sel_id (selectedWordData s) = Some w")
  case True
  then have "gridCells (handleSelectWord s w t k) = gridCells s"
    and "selectedWordData (handleSelectWord s w t k) = noSelection"
    by (simp_all add: handleSelectWord_def)
  with assms(1) show ?thesis by (simp add: selAhead_noSelection)
next
  case False
  obtain m lc where fh: "findHighest w (gridCells s) = (m, lc)"
    by (cases "findHighest w (gridCells s)")
  have sel: "handleSelectWord s w t k =
      s\<lparr>selectedWordData :=
          \<lparr>sel_id = Some w, sel_text = Some (trim t), sel_color = Some k,
           letterIndex = nat (max 0 (m + 1)), lastPlacedCoords = lc\<rparr>,
        editMode := None\<rparr>"
    using False fh newLetterIndex_max[of m] by (simp add: handleSelectWord_def)
  from findHighest_resumes[OF fh] resumesAt_ahead
  have "selAhead (handleSelectWord s w t k)" unfolding sel selAhead_def by auto
  with assms(1) show ?thesis unfolding sel by simp
qed

lemma select_coords: "coordsKnown (selectedWordData (handleSelectWord s w t k))"
proof (cases "sel_id (selectedWordData s) = Some w")
  case True
  then show ?thesis by (simp add: handleSelectWord_def coordsKnown_def noSelection_def)
next
  case False
  obtain m lc where fh: "findHighest w (gridCells s) = (m, lc)"
    by (cases "findHighest w (gridCells s)")
  have sel: "selectedWordData (handleSelectWord s w t k) =
          \<lparr>sel_id = Some w, sel_text = Some (trim t), sel_color = Some k,
           letterIndex = nat (max 0 (m + 1)), lastPlacedCoords = lc\<rparr>"
    using False fh newLetterIndex_max[of m] by (simp add: handleSelectWord_def)
  from findHighest_resumes[OF fh] resumesAt_pos
  show ?thesis unfolding sel coordsKnown_def by auto
qed

lemma click_inv:
  assumes "handleCellClick s r c = Inr s'"
    and "uniquePlacement (gridCells s)" and "selAhead s"
  shows "uniquePlacement (gridCells s') \<and> selAhead s'"
  using assms(1)
proof (cases rule: hcc_cases)
  case same
  with assms show ?thesis by simp
next
  case stale
  with assms(2) show ?thesis by (simp add: selAhead_noSelection)
next
  case (toggle w m lc)
  have sub: "cellAt (gridCells s) a b = Some z"
    if "cellAt (setCell (gridCells s) r c None) a b = Some z" for a b z
    using that toggle(2) by (simp add: cellAt_setCell split: if_splits)
  from assms(2) sub have "uniquePlacement (setCell (gridCells s) r c None)"
    by (rule uniquePlacement_subgrid)
  moreover from findHighest_resumes[OF toggle(3)] resumesAt_ahead toggle(1)
  have "selAhead s'" unfolding toggle(4) selAhead_def by auto
  ultimately show ?thesis unfolding toggle(4) by simp
next
  case (placed w t k)
  define p where "p = \<lparr>letter = toUpperCase (charAt t (letterIndex (selectedWordData s))),
                         wordId = w, color = k,
                         sequenceIndex = letterIndex (selectedWordData s),
                         row = r, col = c\<rparr>"
  have before: "sequenceIndex z < letterIndex (selectedWordData s)"
    if "ownedAt (gridCells s) w a b z" for a b z
    using assms(3) placed(1) that unfolding selAhead_def by blast
  have "uniquePlacement (setCell (gridCells s) r c (Some p))"
    using assms(2) placed(2)
  proof (rule uniquePlacement_place)
    fix a b z assume "ownedAt (gridCells s) (wordId p) a b z"
    then show "sequenceIndex z < sequenceIndex p" using before by (simp add: p_def)
  qed
  moreover have "selAhead s'"
  proof (cases "length t \<le> letterIndex (selectedWordData s) + 1")
    case True
    then show ?thesis unfolding placed(4) by (simp add: selAhead_noSelection)
  next
    case False
    have "sequenceIndex z < letterIndex (selectedWordData s) + 1"
      if "ownedAt (setCell (gridCells s) r c (Some p)) w a b z" for a b z
    proof (cases "a = r \<and> b = c")
      case True
      with that placed(2) have "z = p" by (simp add: ownedAt_def cellAt_setCell)
      then show ?thesis by (simp add: p_def)
    next
      case False
      with that placed(2) have "ownedAt (gridCells s) w a b z"
        by (simp add: ownedAt_def cellAt_setCell)
      from before[OF this] show ?thesis by simp
    qed
    with False placed(1) show ?thesis unfolding placed(4) selAhead_def p_def[symmetric]
      by auto
  qed
  ultimately show ?thesis unfolding placed(4) p_def by simp
qed

lemma click_coords:
  assumes "handleCellClick s r c = Inr s'" and "coordsKnown (selectedWordData s)"
  shows "coordsKnown (selectedWordData s')"
  using assms(1)
proof (cases rule: hcc_cases)
  case same
  with assms show ?thesis by simp
next
  case stale
  then show ?thesis by (simp add: coordsKnown_def noSelection_def)
next
  case (toggle w m lc)
  from findHighest_resumes[OF toggle(3)] resumesAt_pos
  show ?thesis unfolding toggle(4) coordsKnown_def by auto
next
  case (placed w t k)
  then show ?thesis by (simp add: coordsKnown_def noSelection_def)
qed

subsection \<open>Invariants of the reachable states\<close>

lemma cellAt_initial: "cellAt (gridCells initialState) r c = None"
  by (auto simp: cellAt_def initialState_def)

lemma init_inv: "uniquePlacement (gridCells initialState) \<and> selAhead initialState"
  by (simp add: uniquePlacement_def selAhead_def ownedAt_def cellAt_initial)

lemma init_coords: "coordsKnown (selectedWordData initialState)"
  by (simp add: coordsKnown_def initialState_def noSelection_def)

lemma selAhead_cong:
  "gridCells s' = gridCells s \<Longrightarrow> selectedWordData s' = selectedWordData s \<Longrightarrow>
   selAhead s' = selAhead s"
  by (simp add: selAhead_def)

lemma addWord_frame:
  "gridCells (handleAddWord s n) = gridCells s \<and>
   selectedWordData (handleAddWord s n) = selectedWordData s"
  by (simp add: handleAddWord_def Let_def)

lemma saveEdit_cases:
  "(gridCells (handleSaveEdit s w) = gridCells s \<and>
    selectedWordData (handleSaveEdit s w) = selectedWordData s) \<or>
   (gridCells (handleSaveEdit s w) = gridCells (clearCellsForWord s w) \<and>
    selectedWordData (handleSaveEdit s w) = selectedWordData (clearCellsForWord s w))"
  by (simp add: handleSaveEdit_def Let_def split: option.splits)

lemma step_frame_or_handler:
  assumes "step s e = Inr s'"
  obtains (frame) "gridCells s' = gridCells s" "selectedWordData s' = selectedWordData s"
  | (deselect) "gridCells s' = gridCells s" "selectedWordData s' = noSelection"
  | (clear) w where "gridCells s' = gridCells (clearCellsForWord s w)"
      "selectedWordData s' = selectedWordData (clearCellsForWord s w)"
  | (select) w t k where "gridCells s' = gridCells (handleSelectWord s w t k)"
      "selectedWordData s' = selectedWordData (handleSelectWord s w t k)"
  | (click) r c where "handleCellClick s r c = Inr s'"
proof (cases e)
  case (InputChange v)
  with assms have "s' = s\<lparr>currentWord := v\<rparr>" by (simp add: handleInputChange_def)
  then show ?thesis using frame by simp
next
  case (AddWord n)
  with assms have "s' = handleAddWord s n" by simp
  then show ?thesis using frame addWord_frame[of s n] by simp
next
  case (EditClick w t)
  with assms have "s' = handleEditClick s w t" by simp
  then show ?thesis using deselect by (simp add: handleEditClick_def)
next
  case (EditInputChange v)
  with assms have "s' = s\<lparr>editedWordText := v\<rparr>" by (simp add: handleEditInputChange_def)
  then show ?thesis using frame by simp
next
  case (SaveEdit w)
  with assms have "s' = handleSaveEdit s w" by simp
  then show ?thesis using frame clear[of w] saveEdit_cases[of s w] by blast
next
  case CancelEdit
  with assms have "s' = s\<lparr>editMode := None, editedWordText := []\<rparr>"
    by (simp add: handleCancelEdit_def)
  then show ?thesis using frame by simp
next
  case (ClearWordCellsButton w)
  with assms have "s' = clearCellsForWord s w" by (simp add: handleClearWordCellsButton_def)
  then show ?thesis using clear[of w] by simp
next
  case (SelectWord w t k)
  with assms have "s' = handleSelectWord s w t k" by simp
  then show ?thesis using select[of w t k] by simp
next
  case (CellClick r c)
  with assms have "handleCellClick s r c = Inr s'" by simp
  then show ?thesis by (rule click)
next
  case (SetThemeText v)
  with assms have "s' = s\<lparr>themeText := v\<rparr>" by simp
  then show ?thesis using frame by simp
next
  case (SetHintText v)
  with assms have "s' = s\<lparr>hintText := v\<rparr>" by simp
  then show ?thesis using frame by simp
qed

lemma inv_cong:
  "gridCells s' = gridCells t \<Longrightarrow> selectedWordData s' = selectedWordData t \<Longrightarrow>
   uniquePlacement (gridCells t) \<and> selAhead t \<Longrightarrow>
   uniquePlacement (gridCells s') \<and> selAhead s'"
  using selAhead_cong[of s' t] by simp

lemma step_inv:
  assumes "step s e = Inr s'" and "uniquePlacement (gridCells s) \<and> selAhead s"
  shows "uniquePlacement (gridCells s') \<and> selAhead s'"
  using assms(1)
proof (cases rule: step_frame_or_handler)
  case frame
  from frame assms(2) show ?thesis by (rule inv_cong)
next
  case deselect
  with assms(2) show ?thesis by (simp add: selAhead_noSelection)
next
  case (clear w)
  from assms(2) have "uniquePlacement (gridCells (clearCellsForWord s w)) \<and>
      selAhead (clearCellsForWord s w)" by (simp add: clear_inv)
  with clear show ?thesis by (rule inv_cong)
next
  case (select w t k)
  from assms(2) have "uniquePlacement (gridCells (handleSelectWord s w t k)) \<and>
      selAhead (handleSelectWord s w t k)" by (simp add: select_inv)
  with select show ?thesis by (rule inv_cong)
next
  case (click r c)
  with assms(2) show ?thesis by (simp add: click_inv)
qed

lemma step_coords:
  assumes "step s e = Inr s'" and "coordsKnown (selectedWordData s)"
  shows "coordsKnown (selectedWordData s')"
  using assms(1)
proof (cases rule: step_frame_or_handler)
  case frame
  with assms(2) show ?thesis by simp
next
  case deselect
  then show ?thesis by (simp add: coordsKnown_def noSelection_def)
next
  case (clear w)
  with assms(2) clear_coords[of s w] show ?thesis by simp
next
  case (select w t k)
  with select_coords[of s w t k] show ?thesis by simp
next
  case (click r c)
  from this assms(2) show ?thesis by (rule click_coords)
qed

lemma reachable_inv: "reachable s \<Longrightarrow> uniquePlacement (gridCells s) \<and> selAhead s"
proof (induction rule: reachable.induct)
  case reachable_init
  show ?case by (rule init_inv)
next
  case (reachable_step s e s')
  from reachable_step(2) reachable_step.IH show ?case by (rule step_inv)
qed

lemma reachable_coords: "reachable s \<Longrightarrow> coordsKnown (selectedWordData s)"
proof (induction rule: reachable.induct)
  case reachable_init
  show ?case by (rule init_coords)
next
  case (reachable_step s e s')
  from reachable_step(2) reachable_step.IH show ?case by (rule step_coords)
qed

text \<open>
  Invariant I1 holds in the reachable states, so the \<open>row\<close> and \<open>col\<close> a record of
  the export prints are the coordinates of the cell's slot.
\<close>

lemma coordsStored_subgrid:
  assumes "coordsStored g"
    and "\<And>r c x. cellAt g' r c = Some x \<Longrightarrow> cellAt g r c = Some x"
  shows "coordsStored g'"
  using assms unfolding coordsStored_def by blast

lemma select_grid: "gridCells (handleSelectWord s w t k) = gridCells s"
  by (simp add: handleSelectWord_def split: prod.splits)

lemma clear_subgrid:
  "cellAt (gridCells (clearCellsForWord s w)) r c = Some x \<Longrightarrow>
   cellAt (gridCells s) r c = Some x"
  by (auto simp: clearCellsForWord_def Let_def cellAt_map_map split: option.splits if_splits)

lemma step_coordsStored:
  assumes "step s e = Inr s'" and "coordsStored (gridCells s)"
  shows "coordsStored (gridCells s')"
  using assms(1)
proof (cases rule: step_frame_or_handler)
  case frame
  with assms(2) show ?thesis by simp
next
  case deselect
  with assms(2) show ?thesis by simp
next
  case (clear w)
  from assms(2) clear_subgrid have "coordsStored (gridCells (clearCellsForWord s w))"
    by (rule coordsStored_subgrid)
  with clear show ?thesis by simp
next
  case (select w t k)
  with assms(2) show ?thesis by (simp add: select_grid)
next
  case (click r c)
  then show ?thesis
  proof (cases rule: hcc_cases)
    case same
    with assms(2) show ?thesis by simp
  next
    case stale
    with assms(2) show ?thesis by simp
  next
    case (toggle w m lc)
    have "cellAt (gridCells s) a b = Some z"
      if "cellAt (setCell (gridCells s) r c None) a b = Some z" for a b z
      using that toggle(2) by (simp add: cellAt_setCell split: if_splits)
    with assms(2) have "coordsStored (setCell (gridCells s) r c None)"
      by (rule coordsStored_subgrid)
    then show ?thesis unfolding toggle(4) by simp
  next
    case (placed w t k)
    from assms(2) placed(2) show ?thesis unfolding placed(4) coordsStored_def
      by (auto simp: cellAt_setCell split: if_splits)
  qed
qed

lemma reachable_coordsStored: "reachable s \<Longrightarrow> coordsStored (gridCells s)"
proof (induction rule: reachable.induct)
  case reachable_init
  show ?case by (simp add: coordsStored_def cellAt_initial)
next
  case (reachable_step s e s')
  from reachable_step(2) reachable_step.IH show ?case by (rule step_coordsStored)
qed

subsection \<open>The export line by line\<close>

lemma find_id_Some: "find (\<lambda>w. w_id w = wId) ws = Some wo \<Longrightarrow> w_id wo = wId"
  by (induction ws) (auto split: if_splits)

lemma wordIndex_position:
  "(case find (\<lambda>w. w_id w = wId) ws of Some wo \<Rightarrow> indexOfFrom ws wo i | None \<Rightarrow> - 1) =
   (case positionOf ws wId of Some j \<Rightarrow> int (i + j) | None \<Rightarrow> - 1)"
proof (induction ws arbitrary: i)
  case Nil
  show ?case by simp
next
  case (Cons w ws)
  show ?case
  proof (cases "w_id w = wId")
    case True
    then show ?thesis by simp
  next
    case False
    show ?thesis
    proof (cases "find (\<lambda>w. w_id w = wId) ws")
      case None
      with False Cons.IH[of "Suc i"] show ?thesis by (auto split: option.splits)
    next
      case (Some wo)
      then have "w_id wo = wId" by (rule find_id_Some)
      with False have "w \<noteq> wo" by auto
      with False Some Cons.IH[of "Suc i"] show ?thesis by (auto split: option.splits)
    qed
  qed
qed

lemma positionOf_Some_iff:
  "positionOf ws wId = Some i \<longleftrightarrow>
   i < length ws \<and> w_id (ws ! i) = wId \<and> (\<forall>j < i. w_id (ws ! j) \<noteq> wId)"
proof (induction ws arbitrary: i)
  case Nil
  show ?case by simp
next
  case (Cons w ws)
  show ?case
  proof (cases "w_id w = wId")
    case True
    then show ?thesis by (cases i) auto
  next
    case False
    show ?thesis
    proof (cases i)
      case 0
      with False show ?thesis by auto
    next
      case (Suc k)
      have "(\<forall>j < Suc k. w_id ((w # ws) ! j) \<noteq> wId) = (\<forall>j < k. w_id (ws ! j) \<noteq> wId)"
        using False by (auto simp: less_Suc_eq_0_disj)
      with False Suc Cons.IH[of k] show ?thesis by auto
    qed
  qed
qed

lemma positionOf_None_iff: "positionOf ws wId = None \<longleftrightarrow> (\<forall>w \<in> set ws. w_id w \<noteq> wId)"
  by (induction ws) auto

lemma wordIndex_position0:
  "(case find (\<lambda>w. w_id w = wId) ws of Some wo \<Rightarrow> indexOf ws wo | None \<Rightarrow> - 1) =
   (case positionOf ws wId of Some j \<Rightarrow> int j | None \<Rightarrow> - 1)"
  unfolding indexOf_def using wordIndex_position[where wId = wId and ws = ws and i = 0]
  by (simp split: option.splits)

lemma cellRecord_spec: "cellRecord ws p = specRecord ws p"
  by (simp add: cellRecord_def specRecord_def Let_def wordIndex_position0)

lemma occupied_row:
  "map (\<lambda>x. f (the x)) (filter (\<lambda>x. x \<noteq> None) (map h cs)) =
   concat (map (\<lambda>c. case h c of None \<Rightarrow> [] | Some p \<Rightarrow> [f p]) cs)"
  by (induction cs) (simp_all split: option.splits)

lemma occupied_rows:
  "map (\<lambda>x. f (the x)) (filter (\<lambda>x. x \<noteq> None) (concat (map (\<lambda>r. map (h r) cs) rs))) =
   concat (map (\<lambda>r. concat (map (\<lambda>c. case h r c of None \<Rightarrow> [] | Some p \<Rightarrow> [f p]) cs)) rs)"
  by (induction rs) (simp_all add: occupied_row del: not_None_eq)

lemma gridShape_rows:
  assumes "gridShape g"
  shows "g = map (\<lambda>r. map (\<lambda>c. cellAt g r c) [0..<6]) [0..<8]"
proof (rule nth_equalityI)
  from assms show "length g = length (map (\<lambda>r. map (\<lambda>c. cellAt g r c) [0..<6]) [0..<8])"
    by (simp add: gridShape_def)
next
  fix r assume r: "r < length g"
  with assms have len: "length (g ! r) = 6" and r8: "r < 8" by (auto simp: gridShape_def)
  have "g ! r = map (\<lambda>c. cellAt g r c) [0..<6]"
  proof (rule nth_equalityI)
    from len show "length (g ! r) = length (map (\<lambda>c. cellAt g r c) [0..<6])" by simp
  next
    fix c assume "c < length (g ! r)"
    with len r show "g ! r ! c = map (\<lambda>c. cellAt g r c) [0..<6] ! c"
      by (simp add: cellAt_def)
  qed
  with r8 show "g ! r = map (\<lambda>r. map (\<lambda>c. cellAt g r c) [0..<6]) [0..<8] ! r" by simp
qed

lemma gridDataLine_spec:
  assumes "gridShape g"
  shows "map (\<lambda>cellContent. cellRecord ws (the cellContent))
           (filter (\<lambda>cellContent. cellContent \<noteq> None) (concat g)) = specRecords ws g"
proof -
  have "map (\<lambda>cellContent. cellRecord ws (the cellContent))
           (filter (\<lambda>cellContent. cellContent \<noteq> None)
              (concat (map (\<lambda>r. map (\<lambda>c. cellAt g r c) [0..<6]) [0..<8]))) = specRecords ws g"
    by (simp add: occupied_rows specRecords_def cellRecord_spec del: not_None_eq)
  with gridShape_rows[OF assms] show ?thesis by simp
qed

section \<open>The claims\<close>

subsection \<open>Facts about the example sessions\<close>

lemma catPartial_reachable: "reachable catPartial"
  unfolding catPartial_def by (rule reachable_run[OF reachable_init])

lemma staleSelection_reachable: "reachable staleSelection"
  unfolding staleSelection_def by (rule reachable_run[OF reachable_init])

lemma catPartial_selection:
  "selectedWordData catPartial =
     \<lparr>sel_id = Some ''w1'', sel_text = Some ''cat'', sel_color = Some ''#EF4444'',
      letterIndex = 2, lastPlacedCoords = Some (0, 1)\<rparr>"
  by code_simp

lemma catPartial_rows: "length (gridCells catPartial) = 8"
  by code_simp

lemma catPartial_cells:
  "cellAt (gridCells catPartial) 0 0 =
     Some \<lparr>letter = ''C'', wordId = ''w1'', color = ''#EF4444'', sequenceIndex = 0,
           row = 0, col = 0\<rparr>"
  "cellAt (gridCells catPartial) 0 1 =
     Some \<lparr>letter = ''A'', wordId = ''w1'', color = ''#EF4444'', sequenceIndex = 1,
           row = 0, col = 1\<rparr>"
  "cellAt (gridCells catPartial) 1 1 = None"
  "cellAt (gridCells catPartial) 5 5 = None"
  by code_simp+

lemma catDeselected_selection: "selectedWordData catDeselected = noSelection"
  by code_simp

lemma twoWords_selection:
  "selectedWordData twoWords =
     \<lparr>sel_id = Some ''w1'', sel_text = Some ''cat'', sel_color = Some ''#EF4444'',
      letterIndex = 1, lastPlacedCoords = Some (0, 0)\<rparr>"
  by code_simp

lemma twoWords_cells:
  "cellAt (gridCells twoWords) 0 0 =
     Some \<lparr>letter = ''C'', wordId = ''w1'', color = ''#EF4444'', sequenceIndex = 0,
           row = 0, col = 0\<rparr>"
  "cellAt (gridCells twoWords) 0 1 =
     Some \<lparr>letter = ''B'', wordId = ''w2'', color = ''#3B82F6'', sequenceIndex = 0,
           row = 0, col = 1\<rparr>"
  "length (gridCells twoWords) = 8"
  by code_simp+

lemma staleSelection_selection:
  "selectedWordData staleSelection =
     \<lparr>sel_id = Some ''w1'', sel_text = Some ''a'', sel_color = Some ''#EF4444'',
      letterIndex = 1, lastPlacedCoords = Some (0, 0)\<rparr>"
  by code_simp

lemma staleSelection_cells:
  "cellAt (gridCells staleSelection) 0 1 =
     Some \<lparr>letter = ''B'', wordId = ''w2'', color = ''#3B82F6'', sequenceIndex = 0,
           row = 0, col = 1\<rparr>"
  "length (gridCells staleSelection) = 8"
  by code_simp+

lemma farm_shape: "gridShape (gridCells farm)"
  by code_simp

lemma farm_body:
  "specExportBody (themeText farm) (hintText farm) (enteredWords farm) (gridCells farm) =
     ''Animals'' @ [CHR 0x0A] @ ''Farm'' @ [CHR 0x0A] @ ''CAT,DOG'' @ [CHR 0x0A] @ ''0;0;0;0''"
  by code_simp

subsection \<open>Clicks on an empty cell\<close>

text \<open>
  Claim C1. A click on an empty cell, while a Selection exists whose next index is
  inside the selected text, places a letter exactly when the next index is 0 or the
  clicked cell is an 8-neighbour of the last placed coordinate. The placed cell carries
  the upper-cased letter at the next index, the selected word, the next index as its
  sequence index and the clicked coordinates. A rejected click changes nothing.
\<close>

theorem empty_cell_click:
  assumes "r < length (gridCells s)"
    and "cellAt (gridCells s) r c = None"
    and "selectionActive (selectedWordData s)"
    and "sel_id (selectedWordData s) = Some w"
    and "sel_text (selectedWordData s) = Some t"
    and "sel_color (selectedWordData s) = Some k"
    and "letterIndex (selectedWordData s) < length t"
  shows "\<exists>s'. handleCellClick s r c = Inr s' \<and>
           (if letterIndex (selectedWordData s) = 0 \<or>
               (\<exists>p. lastPlacedCoords (selectedWordData s) = Some p \<and> eightNeighbor p (r, c))
            then cellAt (gridCells s') r c =
                   Some \<lparr>letter = toUpperCase [t ! letterIndex (selectedWordData s)],
                         wordId = w, color = k,
                         sequenceIndex = letterIndex (selectedWordData s),
                         row = r, col = c\<rparr>
            else s' = s)"
proof (cases "letterIndex (selectedWordData s) = 0 \<or>
               isNeighbor (lastPlacedCoords (selectedWordData s)) (Some (r, c))")
  case True
  from hcc_placed[OF assms(1,3,4,5,6,7,2) True] assms(1,7) True
  show ?thesis by (simp add: cellAt_setCell isNeighbor_iff charAt_def)
next
  case False
  then have "letterIndex (selectedWordData s) \<noteq> 0"
    and "\<not> isNeighbor (lastPlacedCoords (selectedWordData s)) (Some (r, c))" by simp_all
  from hcc_rejected[OF assms(1,3,5,7,2) this] False
  show ?thesis by (auto simp add: isNeighbor_iff)
qed

theorem empty_cell_click_witness:
  "(\<exists>s'. handleCellClick catPartial 1 1 = Inr s' \<and>
         cellAt (gridCells s') 1 1 =
           Some \<lparr>letter = ''T'', wordId = ''w1'', color = ''#EF4444'', sequenceIndex = 2,
                 row = 1, col = 1\<rparr>) \<and>
   handleCellClick catPartial 5 5 = Inr catPartial"
proof -
  have sel: "selectionActive (selectedWordData catPartial)"
    "sel_id (selectedWordData catPartial) = Some ''w1''"
    "sel_text (selectedWordData catPartial) = Some ''cat''"
    "sel_color (selectedWordData catPartial) = Some ''#EF4444''"
    "letterIndex (selectedWordData catPartial) < length ''cat''"
    by (simp_all add: catPartial_selection selectionActive_def truthy_def)
  have r1: "1 < length (gridCells catPartial)" and r5: "5 < length (gridCells catPartial)"
    by (simp_all add: catPartial_rows)
  have near: "eightNeighbor (0, 1) (1, 1)" and far: "\<not> eightNeighbor (0, 1) (5, 5)"
    by (simp_all add: eightNeighbor_def)
  have letter: "toUpperCase [''cat'' ! 2] = ''T''"
    by (simp add: toUpperCase_def upperChar_def)
  from empty_cell_click[OF r1 catPartial_cells(3) sel] near letter
  have placed: "\<exists>s'. handleCellClick catPartial 1 1 = Inr s' \<and>
         cellAt (gridCells s') 1 1 =
           Some \<lparr>letter = ''T'', wordId = ''w1'', color = ''#EF4444'', sequenceIndex = 2,
                 row = 1, col = 1\<rparr>"
    by (simp add: catPartial_selection)
  from empty_cell_click[OF r5 catPartial_cells(4) sel] far
  have "handleCellClick catPartial 5 5 = Inr catPartial"
    by (simp add: catPartial_selection)
  with placed show ?thesis ..
qed

subsection \<open>Toggling a letter off\<close>

text \<open>
  Claim C2. A click on any cell the selected word owns, while the next index is inside
  the selected text, empties that one cell and no other. Afterwards the next index and
  the last placed coordinate are the resumption point of the word on the remaining
  grid: one more than the highest surviving sequence index, with the coordinates of a
  cell that holds it, or 0 and no coordinate when no cell of the word remains.
\<close>

theorem toggle_off_click:
  assumes "selectionActive (selectedWordData s)"
    and "sel_id (selectedWordData s) = Some w"
    and "sel_text (selectedWordData s) = Some t"
    and "letterIndex (selectedWordData s) < length t"
    and "ownedAt (gridCells s) w r c x"
  shows "\<exists>s'. handleCellClick s r c = Inr s' \<and>
           cellAt (gridCells s') r c = None \<and>
           (\<forall>r' c'. (r', c') \<noteq> (r, c) \<longrightarrow>
                    cellAt (gridCells s') r' c' = cellAt (gridCells s) r' c') \<and>
           resumesAt (gridCells s') w (letterIndex (selectedWordData s'))
             (lastPlacedCoords (selectedWordData s')) \<and>
           sel_id (selectedWordData s') = sel_id (selectedWordData s) \<and>
           sel_text (selectedWordData s') = sel_text (selectedWordData s) \<and>
           sel_color (selectedWordData s') = sel_color (selectedWordData s)"
proof -
  from assms(5) have x: "cellAt (gridCells s) r c = Some x" "wordId x = w"
    by (simp_all add: ownedAt_def)
  then have r: "r < length (gridCells s)" using cellAt_SomeD by blast
  obtain m lc where fh: "findHighest w (setCell (gridCells s) r c None) = (m, lc)"
    by (cases "findHighest w (setCell (gridCells s) r c None)")
  note click = hcc_toggle_off[OF r assms(1,2,3,4) x fh]
  from findHighest_resumes[OF fh]
  have "resumesAt (setCell (gridCells s) r c None) w (nat (max 0 (m + 1))) lc" .
  with click r show ?thesis by (simp add: cellAt_setCell)
qed

theorem toggle_off_click_witness:
  "ownedAt (gridCells catPartial) ''w1'' 0 0
     \<lparr>letter = ''C'', wordId = ''w1'', color = ''#EF4444'', sequenceIndex = 0,
      row = 0, col = 0\<rparr> \<and>
   (\<exists>s'. handleCellClick catPartial 0 0 = Inr s' \<and>
         cellAt (gridCells s') 0 0 = None \<and>
         cellAt (gridCells s') 0 1 = cellAt (gridCells catPartial) 0 1 \<and>
         resumesAt (gridCells s') ''w1'' 2 (Some (0, 1)))"
proof -
  have sel: "selectionActive (selectedWordData catPartial)"
    "sel_id (selectedWordData catPartial) = Some ''w1''"
    "sel_text (selectedWordData catPartial) = Some ''cat''"
    "letterIndex (selectedWordData catPartial) < length ''cat''"
    by (simp_all add: catPartial_selection selectionActive_def truthy_def)
  have own: "ownedAt (gridCells catPartial) ''w1'' 0 0
     \<lparr>letter = ''C'', wordId = ''w1'', color = ''#EF4444'', sequenceIndex = 0,
      row = 0, col = 0\<rparr>"
    by (simp add: ownedAt_def catPartial_cells)
  from toggle_off_click[OF sel own] obtain s' where
    click: "handleCellClick catPartial 0 0 = Inr s'"
    and gone: "cellAt (gridCells s') 0 0 = None"
    and rest: "\<forall>r' c'. (r', c') \<noteq> (0, 0) \<longrightarrow>
                 cellAt (gridCells s') r' c' = cellAt (gridCells catPartial) r' c'"
    and res: "resumesAt (gridCells s') ''w1'' (letterIndex (selectedWordData s'))
                (lastPlacedCoords (selectedWordData s'))"
    by blast
  have "handleCellClick catPartial 0 0 = Inr (run catPartial [CellClick 0 0])"
    by code_simp
  with click have "Inr s' = (Inr (run catPartial [CellClick 0 0]) :: error + state)"
    by (simp only:)
  then have s': "s' = run catPartial [CellClick 0 0]" by (simp only: sum.inject)
  have li: "letterIndex (selectedWordData s') = 2"
    and lc: "lastPlacedCoords (selectedWordData s') = Some (0, 1)"
    unfolding s' by code_simp+
  from res have "resumesAt (gridCells s') ''w1'' 2 (Some (0, 1))" by (simp only: li lc)
  moreover from rest have "cellAt (gridCells s') 0 1 = cellAt (gridCells catPartial) 0 1"
    by simp
  ultimately show ?thesis using own click gone by blast
qed

subsection \<open>Selecting a word resumes it\<close>

text \<open>
  Claim C3. Selecting a word that is not the current Selection leaves the grid as it
  is and makes the word the Selection, with the trimmed text, and with the resumption
  point of the word on the grid: next index \<open>k + 1\<close> and the coordinates of a cell
  holding sequence index \<open>k\<close>, the highest among the word's cells, or next index 0 and
  no coordinate when the word owns no cell.
\<close>

theorem select_resumes:
  assumes "sel_id (selectedWordData s) \<noteq> Some w"
  shows "gridCells (handleSelectWord s w t k) = gridCells s \<and>
         sel_id (selectedWordData (handleSelectWord s w t k)) = Some w \<and>
         sel_text (selectedWordData (handleSelectWord s w t k)) = Some (trim t) \<and>
         sel_color (selectedWordData (handleSelectWord s w t k)) = Some k \<and>
         resumesAt (gridCells s) w
           (letterIndex (selectedWordData (handleSelectWord s w t k)))
           (lastPlacedCoords (selectedWordData (handleSelectWord s w t k)))"
proof -
  obtain m lc where fh: "findHighest w (gridCells s) = (m, lc)"
    by (cases "findHighest w (gridCells s)")
  have sel: "handleSelectWord s w t k =
      s\<lparr>selectedWordData :=
          \<lparr>sel_id = Some w, sel_text = Some (trim t), sel_color = Some k,
           letterIndex = nat (max 0 (m + 1)), lastPlacedCoords = lc\<rparr>,
        editMode := None\<rparr>"
    using assms fh newLetterIndex_max[of m] by (simp add: handleSelectWord_def)
  from findHighest_resumes[OF fh] show ?thesis unfolding sel by simp
qed

theorem select_resumes_witness:
  "sel_id (selectedWordData catDeselected) \<noteq> Some ''w1'' \<and>
   gridCells (handleSelectWord catDeselected ''w1'' '' cat '' ''#EF4444'') =
     gridCells catDeselected \<and>
   sel_text (selectedWordData (handleSelectWord catDeselected ''w1'' '' cat '' ''#EF4444'')) =
     Some ''cat'' \<and>
   resumesAt (gridCells catDeselected) ''w1'' 2 (Some (0, 1))"
proof -
  have other: "sel_id (selectedWordData catDeselected) \<noteq> Some ''w1''"
    by (simp add: catDeselected_selection noSelection_def)
  have "letterIndex (selectedWordData
          (handleSelectWord catDeselected ''w1'' '' cat '' ''#EF4444'')) = 2"
    and "lastPlacedCoords (selectedWordData
          (handleSelectWord catDeselected ''w1'' '' cat '' ''#EF4444'')) = Some (0, 1)"
    and "trim '' cat '' = ''cat''"
    by code_simp+
  with select_resumes[OF other, of "'' cat ''" "''#EF4444''"] other show ?thesis by simp
qed

subsection \<open>Uniqueness of word and sequence index\<close>

text \<open>
  Claim C4. In every reachable state no two occupied cells share word and sequence
  index, and every handler, run from a reachable state, leads to a state where this
  holds again: a cell click under any Selection, selecting and deselecting a word,
  clearing a word's cells, saving a rename.
\<close>

theorem placements_unique:
  assumes "reachable s"
  shows "uniquePlacement (gridCells s) \<and>
         (\<forall>e s'. step s e = Inr s' \<longrightarrow> uniquePlacement (gridCells s'))"
proof -
  from assms have inv: "uniquePlacement (gridCells s) \<and> selAhead s" by (rule reachable_inv)
  have "uniquePlacement (gridCells s')" if "step s e = Inr s'" for e s'
    using step_inv[OF that inv] ..
  with inv show ?thesis by blast
qed

theorem placements_unique_witness:
  "reachable catPartial \<and> uniquePlacement (gridCells catPartial) \<and>
   cellAt (gridCells catPartial) 0 0 \<noteq> None \<and> cellAt (gridCells catPartial) 0 1 \<noteq> None"
proof -
  have "cellAt (gridCells catPartial) 0 0 \<noteq> None"
    and "cellAt (gridCells catPartial) 0 1 \<noteq> None"
    unfolding catPartial_cells by simp_all
  with placements_unique[OF catPartial_reachable] catPartial_reachable
  show ?thesis by blast
qed

subsection \<open>The final letter\<close>

text \<open>
  Claim C5. An accepted placement of the final letter of the selected word (the next
  index plus one is the length of the selected text) leaves no Selection, and the
  written cell is the only cell of the grid that changes.
\<close>

theorem final_letter_deselects:
  assumes "r < length (gridCells s)"
    and "cellAt (gridCells s) r c = None"
    and "selectionActive (selectedWordData s)"
    and "sel_id (selectedWordData s) = Some w"
    and "sel_text (selectedWordData s) = Some t"
    and "sel_color (selectedWordData s) = Some k"
    and "letterIndex (selectedWordData s) + 1 = length t"
    and "letterIndex (selectedWordData s) = 0 \<or>
         (\<exists>p. lastPlacedCoords (selectedWordData s) = Some p \<and> eightNeighbor p (r, c))"
  shows "\<exists>s'. handleCellClick s r c = Inr s' \<and>
           selectedWordData s' = noSelection \<and>
           cellAt (gridCells s') r c =
             Some \<lparr>letter = toUpperCase [t ! letterIndex (selectedWordData s)],
                   wordId = w, color = k,
                   sequenceIndex = letterIndex (selectedWordData s),
                   row = r, col = c\<rparr> \<and>
           (\<forall>r' c'. (r', c') \<noteq> (r, c) \<longrightarrow>
                    cellAt (gridCells s') r' c' = cellAt (gridCells s) r' c')"
proof -
  from assms(7) have lt: "letterIndex (selectedWordData s) < length t" by simp
  from assms(8) have ok: "letterIndex (selectedWordData s) = 0 \<or>
      isNeighbor (lastPlacedCoords (selectedWordData s)) (Some (r, c))"
    by (simp add: isNeighbor_iff)
  from hcc_placed[OF assms(1,3,4,5,6) lt assms(2) ok] assms(1,7) lt
  show ?thesis by (simp add: cellAt_setCell charAt_def)
qed

theorem final_letter_deselects_witness:
  "letterIndex (selectedWordData catPartial) + 1 = length ''cat'' \<and>
   (\<exists>s'. handleCellClick catPartial 1 1 = Inr s' \<and>
         selectedWordData s' = noSelection \<and>
         cellAt (gridCells s') 0 0 = cellAt (gridCells catPartial) 0 0)"
proof -
  have sel: "selectionActive (selectedWordData catPartial)"
    "sel_id (selectedWordData catPartial) = Some ''w1''"
    "sel_text (selectedWordData catPartial) = Some ''cat''"
    "sel_color (selectedWordData catPartial) = Some ''#EF4444''"
    "letterIndex (selectedWordData catPartial) + 1 = length ''cat''"
    by (simp_all add: catPartial_selection selectionActive_def truthy_def)
  have r1: "1 < length (gridCells catPartial)" by (simp add: catPartial_rows)
  have near: "letterIndex (selectedWordData catPartial) = 0 \<or>
      (\<exists>p. lastPlacedCoords (selectedWordData catPartial) = Some p \<and> eightNeighbor p (1, 1))"
    by (simp add: catPartial_selection eightNeighbor_def)
  from final_letter_deselects[OF r1 catPartial_cells(3) sel near] obtain s' where
    "handleCellClick catPartial 1 1 = Inr s'" "selectedWordData s' = noSelection"
    "\<forall>r' c'. (r', c') \<noteq> (1, 1) \<longrightarrow>
        cellAt (gridCells s') r' c' = cellAt (gridCells catPartial) r' c'"
    by blast
  then have "handleCellClick catPartial 1 1 = Inr s' \<and> selectedWordData s' = noSelection \<and>
      cellAt (gridCells s') 0 0 = cellAt (gridCells catPartial) 0 0" by simp
  with sel(5) show ?thesis by blast
qed

subsection \<open>Clicks that place and remove nothing\<close>

text \<open>
  Claim C6, as amended. A click in a row of the grid leaves the grid unchanged when it
  is invalid: with no active Selection, the whole state is unchanged; on a cell occupied
  by a word other than the selected one, while the next index is inside the selected
  text, the whole state is unchanged; with the next index at or beyond the length of
  the selected text, the grid is unchanged and the Selection becomes absent.
\<close>

theorem invalid_clicks:
  assumes "r < length (gridCells s)"
  shows "(\<not> selectionActive (selectedWordData s) \<longrightarrow> handleCellClick s r c = Inr s) \<and>
         (selectionActive (selectedWordData s) \<and>
          letterIndex (selectedWordData s) < length (the (sel_text (selectedWordData s))) \<and>
          (\<exists>x. cellAt (gridCells s) r c = Some x \<and>
               sel_id (selectedWordData s) \<noteq> Some (wordId x)) \<longrightarrow>
            handleCellClick s r c = Inr s) \<and>
         (selectionActive (selectedWordData s) \<and>
          length (the (sel_text (selectedWordData s))) \<le> letterIndex (selectedWordData s) \<longrightarrow>
            handleCellClick s r c = Inr (s\<lparr>selectedWordData := noSelection\<rparr>) \<and>
            gridCells (s\<lparr>selectedWordData := noSelection\<rparr>) = gridCells s)"
proof (intro conjI impI)
  assume "\<not> selectionActive (selectedWordData s)"
  with assms show "handleCellClick s r c = Inr s" by (rule hcc_inactive)
next
  assume h: "selectionActive (selectedWordData s) \<and>
      letterIndex (selectedWordData s) < length (the (sel_text (selectedWordData s))) \<and>
      (\<exists>x. cellAt (gridCells s) r c = Some x \<and> sel_id (selectedWordData s) \<noteq> Some (wordId x))"
  then obtain w t where sel: "sel_id (selectedWordData s) = Some w"
    "sel_text (selectedWordData s) = Some t"
    using selectionActiveD by blast
  from h obtain x where x: "cellAt (gridCells s) r c = Some x"
    "sel_id (selectedWordData s) \<noteq> Some (wordId x)" by blast
  from h sel have lt: "letterIndex (selectedWordData s) < length t" by simp
  from x(2) sel(1) have "wordId x \<noteq> w" by auto
  with assms h sel lt x(1) show "handleCellClick s r c = Inr s"
    by (simp add: hcc_other_word)
next
  assume h: "selectionActive (selectedWordData s) \<and>
      length (the (sel_text (selectedWordData s))) \<le> letterIndex (selectedWordData s)"
  then obtain t where t: "sel_text (selectedWordData s) = Some t"
    using selectionActiveD by blast
  with h have "length t \<le> letterIndex (selectedWordData s)" by simp
  with assms h t show "handleCellClick s r c = Inr (s\<lparr>selectedWordData := noSelection\<rparr>)"
    by (simp add: hcc_exhausted)
next
  show "gridCells (s\<lparr>selectedWordData := noSelection\<rparr>) = gridCells s" by simp
qed

theorem invalid_clicks_witness:
  "handleCellClick initialState 0 0 = Inr initialState \<and>
   handleCellClick twoWords 0 1 = Inr twoWords \<and>
   handleCellClick staleSelection 0 1 = Inr (staleSelection\<lparr>selectedWordData := noSelection\<rparr>)"
proof -
  have r0: "0 < length (gridCells initialState)" by (simp add: initialState_def)
  have none: "\<not> selectionActive (selectedWordData initialState)"
    by (simp add: initialState_def noSelection_def selectionActive_def truthy_def)
  from invalid_clicks[OF r0, of 0] none
  have a: "handleCellClick initialState 0 0 = Inr initialState" by blast
  have r1: "0 < length (gridCells twoWords)" by (simp add: twoWords_cells)
  have other: "selectionActive (selectedWordData twoWords) \<and>
      letterIndex (selectedWordData twoWords) < length (the (sel_text (selectedWordData twoWords))) \<and>
      (\<exists>x. cellAt (gridCells twoWords) 0 1 = Some x \<and>
           sel_id (selectedWordData twoWords) \<noteq> Some (wordId x))"
    unfolding twoWords_cells by (simp add: twoWords_selection selectionActive_def truthy_def)
  from invalid_clicks[OF r1, of 1] other
  have b: "handleCellClick twoWords 0 1 = Inr twoWords" by blast
  have r2: "0 < length (gridCells staleSelection)" by (simp add: staleSelection_cells)
  have stale: "selectionActive (selectedWordData staleSelection) \<and>
      length (the (sel_text (selectedWordData staleSelection))) \<le>
        letterIndex (selectedWordData staleSelection)"
    by (simp add: staleSelection_selection selectionActive_def truthy_def)
  from invalid_clicks[OF r2, of 1] stale
  have "handleCellClick staleSelection 0 1 =
      Inr (staleSelection\<lparr>selectedWordData := noSelection\<rparr>)" by blast
  with a b show ?thesis by blast
qed

text \<open>
  The claim as first stated also promises an unchanged Selection for every click on a
  cell of another word. In the reachable state \<open>staleSelection\<close> the word \<open>a\<close> is
  selected with its only letter already placed, the cell \<open>(0, 1)\<close> belongs to the
  word \<open>b\<close>, and the click there clears the Selection.
\<close>

theorem stale_click_counterexample:
  "reachable staleSelection \<and>
   selectionActive (selectedWordData staleSelection) \<and>
   sel_id (selectedWordData staleSelection) = Some ''w1'' \<and>
   map_option wordId (cellAt (gridCells staleSelection) 0 1) = Some ''w2'' \<and>
   handleCellClick staleSelection 0 1 = Inr (staleSelection\<lparr>selectedWordData := noSelection\<rparr>) \<and>
   selectedWordData (staleSelection\<lparr>selectedWordData := noSelection\<rparr>) \<noteq>
     selectedWordData staleSelection"
proof -
  have "selectionActive (selectedWordData staleSelection)"
    and "sel_id (selectedWordData staleSelection) = Some ''w1''"
    and "selectedWordData (staleSelection\<lparr>selectedWordData := noSelection\<rparr>) \<noteq>
         selectedWordData staleSelection"
    by (simp_all add: staleSelection_selection selectionActive_def truthy_def noSelection_def)
  moreover have "map_option wordId (cellAt (gridCells staleSelection) 0 1) = Some ''w2''"
    unfolding staleSelection_cells by simp
  moreover have "handleCellClick staleSelection 0 1 =
      Inr (staleSelection\<lparr>selectedWordData := noSelection\<rparr>)"
    by code_simp
  ultimately show ?thesis using staleSelection_reachable by blast
qed

subsection \<open>Clearing the cells of a word\<close>

text \<open>
  Claim C7. \<open>clearCellsForWord\<close> empties exactly the cells the word owns: every other
  cell, owned by another word or empty, is as before. When the cleared word is the
  current Selection, its next index becomes 0 and its last placed coordinate absent,
  the other fields staying; a Selection of another word is unchanged.
\<close>

theorem clear_cells_frame:
  "(\<forall>r c. cellAt (gridCells (clearCellsForWord s w)) r c =
          (case cellAt (gridCells s) r c of
             None \<Rightarrow> None
           | Some x \<Rightarrow> if wordId x = w then None else Some x)) \<and>
   (sel_id (selectedWordData s) = Some w \<longrightarrow>
      selectedWordData (clearCellsForWord s w) =
        (selectedWordData s)\<lparr>letterIndex := 0, lastPlacedCoords := None\<rparr>) \<and>
   (sel_id (selectedWordData s) \<noteq> Some w \<longrightarrow>
      selectedWordData (clearCellsForWord s w) = selectedWordData s)"
  by (simp add: clearCellsForWord_def Let_def cellAt_map_map)

theorem clear_cells_frame_witness:
  "cellAt (gridCells (clearCellsForWord twoWords ''w1'')) 0 0 = None \<and>
   cellAt (gridCells (clearCellsForWord twoWords ''w1'')) 0 1 =
     cellAt (gridCells twoWords) 0 1 \<and>
   selectedWordData (clearCellsForWord twoWords ''w1'') =
     \<lparr>sel_id = Some ''w1'', sel_text = Some ''cat'', sel_color = Some ''#EF4444'',
      letterIndex = 0, lastPlacedCoords = None\<rparr> \<and>
   selectedWordData (clearCellsForWord twoWords ''w2'') = selectedWordData twoWords"
proof -
  note w1 = clear_cells_frame[of twoWords "''w1''"]
  note w2 = clear_cells_frame[of twoWords "''w2''"]
  from w1 have "cellAt (gridCells (clearCellsForWord twoWords ''w1'')) 0 0 =
      (case cellAt (gridCells twoWords) 0 0 of None \<Rightarrow> None
       | Some x \<Rightarrow> if wordId x = ''w1'' then None else Some x)" by blast
  then have a: "cellAt (gridCells (clearCellsForWord twoWords ''w1'')) 0 0 = None"
    unfolding twoWords_cells by simp
  from w1 have "cellAt (gridCells (clearCellsForWord twoWords ''w1'')) 0 1 =
      (case cellAt (gridCells twoWords) 0 1 of None \<Rightarrow> None
       | Some x \<Rightarrow> if wordId x = ''w1'' then None else Some x)" by blast
  then have b: "cellAt (gridCells (clearCellsForWord twoWords ''w1'')) 0 1 =
      cellAt (gridCells twoWords) 0 1"
    unfolding twoWords_cells by simp
  from w1 have c: "selectedWordData (clearCellsForWord twoWords ''w1'') =
     \<lparr>sel_id = Some ''w1'', sel_text = Some ''cat'', sel_color = Some ''#EF4444'',
      letterIndex = 0, lastPlacedCoords = None\<rparr>"
    by (simp add: twoWords_selection)
  from w2 have "selectedWordData (clearCellsForWord twoWords ''w2'') = selectedWordData twoWords"
    by (simp add: twoWords_selection)
  with a b c show ?thesis by blast
qed

subsection \<open>Selecting twice\<close>

text \<open>
  Claim C8, as amended. The two selects of one word in a row leave the grid as it was,
  from every state. From a state in which the word is not the current Selection they
  end with an absent Selection. Selecting the word that is the current Selection
  deselects it and clears no cell.
\<close>

theorem select_twice:
  "gridCells (handleSelectWord (handleSelectWord s w t k) w t k) = gridCells s \<and>
   (sel_id (selectedWordData s) \<noteq> Some w \<longrightarrow>
      selectedWordData (handleSelectWord (handleSelectWord s w t k) w t k) = noSelection) \<and>
   (sel_id (selectedWordData s) = Some w \<longrightarrow>
      selectedWordData (handleSelectWord s w t k) = noSelection \<and>
      gridCells (handleSelectWord s w t k) = gridCells s)"
proof -
  have grid: "gridCells (handleSelectWord s' w t k) = gridCells s'" for s'
    by (simp add: handleSelectWord_def split: prod.splits)
  have off: "selectedWordData (handleSelectWord s' w t k) = noSelection"
    if "sel_id (selectedWordData s') = Some w" for s'
    using that by (simp add: handleSelectWord_def)
  have on: "sel_id (selectedWordData (handleSelectWord s w t k)) = Some w"
    if "sel_id (selectedWordData s) \<noteq> Some w"
    using that by (simp add: handleSelectWord_def split: prod.splits)
  from grid[of "handleSelectWord s w t k"] grid[of s] off[of s] off[OF on]
  show ?thesis by simp
qed

theorem select_twice_witness:
  "selectedWordData
     (handleSelectWord (handleSelectWord catDeselected ''w1'' ''cat'' ''#EF4444'')
        ''w1'' ''cat'' ''#EF4444'') = noSelection \<and>
   gridCells
     (handleSelectWord (handleSelectWord catDeselected ''w1'' ''cat'' ''#EF4444'')
        ''w1'' ''cat'' ''#EF4444'') = gridCells catDeselected \<and>
   selectedWordData (handleSelectWord catPartial ''w1'' ''cat'' ''#EF4444'') = noSelection"
proof -
  have other: "sel_id (selectedWordData catDeselected) \<noteq> Some ''w1''"
    by (simp add: catDeselected_selection noSelection_def)
  have same: "sel_id (selectedWordData catPartial) = Some ''w1''"
    by (simp add: catPartial_selection)
  from select_twice[of catDeselected "''w1''" "''cat''" "''#EF4444''"] other
    select_twice[of catPartial "''w1''" "''cat''" "''#EF4444''"] same
  show ?thesis by blast
qed

text \<open>
  The claim as first stated promises the absent Selection from every state. In the
  reachable state \<open>catPartial\<close> the word is the current Selection: the first select
  deselects it and the second selects it again.
\<close>

theorem select_twice_counterexample:
  "reachable catPartial \<and>
   sel_id (selectedWordData catPartial) = Some ''w1'' \<and>
   sel_id (selectedWordData
     (handleSelectWord (handleSelectWord catPartial ''w1'' ''cat'' ''#EF4444'')
        ''w1'' ''cat'' ''#EF4444'')) = Some ''w1'' \<and>
   selectedWordData
     (handleSelectWord (handleSelectWord catPartial ''w1'' ''cat'' ''#EF4444'')
        ''w1'' ''cat'' ''#EF4444'') \<noteq> noSelection"
proof -
  have "sel_id (selectedWordData catPartial) = Some ''w1''"
    by (simp add: catPartial_selection)
  moreover have "sel_id (selectedWordData
     (handleSelectWord (handleSelectWord catPartial ''w1'' ''cat'' ''#EF4444'')
        ''w1'' ''cat'' ''#EF4444'')) = Some ''w1''"
    by code_simp
  moreover from this have "selectedWordData
     (handleSelectWord (handleSelectWord catPartial ''w1'' ''cat'' ''#EF4444'')
        ''w1'' ''cat'' ''#EF4444'') \<noteq> noSelection"
    by (auto simp: noSelection_def)
  ultimately show ?thesis using catPartial_reachable by blast
qed

subsection \<open>The export file\<close>

text \<open>
  Claim C9. For the 8 by 6 grid, the exported text is the byte-order mark followed by
  four lines separated by newlines: the theme, the hint, the word texts of the
  registry in order joined by commas, and the records
  \<open>wordIndex;sequenceIndex;row;col\<close> of the occupied cells joined by commas, in
  row-major order of the grid, where \<open>wordIndex\<close> is the position of the owning word
  in the registry counted from 0, or \<open>-1\<close> when the registry has no such word.
\<close>

theorem export_file_format:
  assumes "gridShape (gridCells s)"
  shows "handleExport s =
           BOM @ specExportBody (themeText s) (hintText s) (enteredWords s) (gridCells s)"
  using gridDataLine_spec[OF assms, of "enteredWords s"]
  by (simp add: handleExport_def specExportBody_def Let_def)

theorem export_file_format_witness:
  "gridShape (gridCells farm) \<and>
   handleExport farm =
     BOM @ ''Animals'' @ [CHR 0x0A] @ ''Farm'' @ [CHR 0x0A] @ ''CAT,DOG'' @ [CHR 0x0A] @
     ''0;0;0;0''"
  using export_file_format[OF farm_shape] farm_shape by (simp only: farm_body)

subsection \<open>The last placed coordinate is there when it is needed\<close>

text \<open>
  Claim C10. In every reachable state a positive next index comes with a last placed
  coordinate, and so it does after every handler run from a reachable state. The
  empty-cell branch of the click handler calls \<open>isNeighbor\<close> only when the next index
  is not 0, hence never with an absent coordinate.
\<close>

theorem last_coords_present:
  assumes "reachable s"
  shows "(0 < letterIndex (selectedWordData s) \<longrightarrow>
            lastPlacedCoords (selectedWordData s) \<noteq> None) \<and>
         (\<forall>e s'. step s e = Inr s' \<and> 0 < letterIndex (selectedWordData s') \<longrightarrow>
                 lastPlacedCoords (selectedWordData s') \<noteq> None)"
proof -
  from assms have here: "coordsKnown (selectedWordData s)" by (rule reachable_coords)
  have "coordsKnown (selectedWordData s')" if "step s e = Inr s'" for e s'
    using that here by (rule step_coords)
  with here show ?thesis unfolding coordsKnown_def by blast
qed

theorem last_coords_present_witness:
  "reachable catPartial \<and> 0 < letterIndex (selectedWordData catPartial) \<and>
   lastPlacedCoords (selectedWordData catPartial) \<noteq> None"
proof -
  have pos: "0 < letterIndex (selectedWordData catPartial)"
    by (simp add: catPartial_selection)
  with last_coords_present[OF catPartial_reachable] catPartial_reachable
  show ?thesis by blast
qed

end
